theory Spec2Isabelle
  imports Main "HOL-Library.AList"
begin

section \<open>Values exchanged with the REST API\<close>

text \<open>
  \<open>resp.json()\<close> yields an arbitrary decoded JSON document. Objects are kept as
  association lists in key order (a Python dict keeps insertion order). Numbers are
  integers here: the pollers never compute with a payload number, they only test an
  identifier for truth and for membership in a set.
\<close>

datatype json =
    JNull
  | JBool bool
  | JNum int
  | JStr string
  | JArr "json list"
  | JObj "(string \<times> json) list"

datatype py_error =
    HTTPError
  | Timeout
  | ConnectionError
  | JSONDecodeError
  | AttributeError
  | TypeError
  | IngestError

text \<open>\<open>d.get(k, default)\<close>: only a dict has the method \<open>get\<close>.\<close>

fun dict_get :: "json \<Rightarrow> string \<Rightarrow> json \<Rightarrow> py_error + json" where
  "dict_get (JObj kvs) k dflt = Inr (case map_of kvs k of None \<Rightarrow> dflt | Some v \<Rightarrow> v)"
| "dict_get _ k dflt = Inl AttributeError"

text \<open>\<open>for x in v\<close>: a list yields its elements, a dict its keys, a string its characters;
  \<open>None\<close>, a bool and a number are not iterable.\<close>

fun py_iter :: "json \<Rightarrow> py_error + json list" where
  "py_iter (JArr xs) = Inr xs"
| "py_iter (JObj kvs) = Inr (map (\<lambda>kv. JStr (fst kv)) kvs)"
| "py_iter (JStr s) = Inr (map (\<lambda>c. JStr [c]) s)"
| "py_iter _ = Inl TypeError"

text \<open>\<open>d[k] = v\<close> with a string key: only a dict accepts it.\<close>

fun set_item :: "json \<Rightarrow> string \<Rightarrow> json \<Rightarrow> py_error + json" where
  "set_item (JObj kvs) k v = Inr (JObj (AList.update k v kvs))"
| "set_item _ k v = Inl TypeError"

text \<open>Truth value of a JSON value under Python's \<open>if x\<close>.\<close>

fun truthy :: "json \<Rightarrow> bool" where
  "truthy JNull = False"
| "truthy (JBool b) = b"
| "truthy (JNum n) = (n \<noteq> 0)"
| "truthy (JStr s) = (s \<noteq> [])"
| "truthy (JArr xs) = (xs \<noteq> [])"
| "truthy (JObj kvs) = (kvs \<noteq> [])"

text \<open>
  Elements of a Python set are compared by hash and \<open>==\<close>: \<open>True == 1\<close> and
  \<open>False == 0\<close>, a list or a dict is unhashable (\<open>TypeError\<close>).
\<close>

datatype key = KNone | KNum int | KStr string

fun py_hash_key :: "json \<Rightarrow> py_error + key" where
  "py_hash_key JNull = Inr KNone"
| "py_hash_key (JBool b) = Inr (KNum (if b then 1 else 0))"
| "py_hash_key (JNum n) = Inr (KNum n)"
| "py_hash_key (JStr s) = Inr (KStr s)"
| "py_hash_key (JArr xs) = Inl TypeError"
| "py_hash_key (JObj kvs) = Inl TypeError"

section \<open>Configuration\<close>

definition TICKERS :: "string list" where
  "TICKERS = [''AAPL'', ''MSFT'', ''GOOGL'', ''AMZN'', ''TSLA'', ''NVDA'', ''META'']"

definition POLYGON_REST_URL :: string where
  "POLYGON_REST_URL = ''https://api.polygon.io''"

section \<open>Envelopes, the sink and the environment of one cycle\<close>

record metadata =
  ingested_at :: string
  source :: string
  ticker :: "string option"

record envelope =
  RECORD_CONTENT :: json
  RECORD_METADATA :: metadata

text \<open>
  One call of \<open>channel.append_rows\<close>. The offset tokens are the decimal renderings
  \<open>str(n)\<close> of two integers; the integers are kept. \<open>accepted\<close> is false when the
  call raised.
\<close>

record append_call =
  rows :: "envelope list"
  start_offset_token :: int
  end_offset_token :: int
  accepted :: bool

datatype log_entry =
    LogError string py_error
  | LogInfo string int int

text \<open>
  What the outside world does during one call of \<open>fetch_and_ingest\<close>:
  \<^item> \<open>http_get url\<close>: what \<open>api_get\<close> does for that URL, an exception of
    \<open>requests.get\<close>, \<open>raise_for_status\<close> or \<open>resp.json()\<close>, or the decoded body
    (the sleep that spaces the calls has no effect on the value);
  \<^item> \<open>is_set t\<close>: what \<open>shutdown_event.is_set()\<close> answers at the head of the loop
    iteration for ticker \<open>t\<close>;
  \<^item> \<open>now n\<close>: the \<open>n\<close>-th reading of the UTC clock in this cycle, in ISO format;
  \<^item> \<open>append_result\<close>: \<open>None\<close> when \<open>append_rows\<close> returns, the exception otherwise;
  \<^item> \<open>today\<close>, \<open>thirty_days_ago\<close>: the two formatted local dates;
  \<^item> \<open>slot\<close>: the position of a key in the hash table of a set, which fixes the order in
    which \<open>list(a_set)\<close> enumerates.
\<close>

record cycle_env =
  http_get :: "string \<Rightarrow> py_error + json"
  is_set :: "string \<Rightarrow> bool"
  now :: "nat \<Rightarrow> string"
  append_result :: "py_error option"
  today :: string
  thirty_days_ago :: string
  slot :: "key \<Rightarrow> nat"

text \<open>
  The fields of a poller object, with the traces of what it did to the outside:
  \<open>channel\<close> is the list of \<open>append_rows\<close> calls made on its channel, \<open>requests\<close> the
  URLs it passed to \<open>api_get\<close>, \<open>log\<close> what it logged.
\<close>

record poller =
  total_ingested :: int
  offset :: int
  channel :: "append_call list"
  requests :: "string list"
  log :: "log_entry list"

record hist_poller = poller +
  loaded :: bool

record news_poller = poller +
  seen_ids :: "key list"

text \<open>
  \<^verbatim>\<open>
  def api_get(url, params):
      global last_api_call
      with api_lock:
          elapsed = time.time() - last_api_call
          if elapsed < API_CALL_DELAY:
              time.sleep(API_CALL_DELAY - elapsed)
          params["apiKey"] = POLYGON_API_KEY
          resp = requests.get(url, params=params, timeout=15)
          last_api_call = time.time()
          resp.raise_for_status()
          return resp.json()
  \<close>
  The lock and the sleep decide when a call is made, not what it returns: the caller
  sees an exception or the decoded body. Time is not part of this model, and the
  parameters, fixed for each endpoint, are left out of the trace of requests.
\<close>

definition api_get :: "cycle_env \<Rightarrow> string \<Rightarrow> py_error + json" where
  "api_get env url = http_get env url"

section \<open>The append step shared by the three pollers\<close>

text \<open>
  \<^verbatim>\<open>
  if rows:
      try:
          self.offset += len(rows)
          self.channel.append_rows(rows, start_offset_token=str(self.offset - len(rows)),
                                   end_offset_token=str(self.offset))
          self.total_ingested += len(rows)
          log.info(...)
      except Exception as e:
          log.error(...)
  \<close>
  The offset is advanced before the call and is not restored when the call raises.
\<close>

definition ingest :: "string \<Rightarrow> cycle_env \<Rightarrow> envelope list \<Rightarrow> 'a poller_scheme \<Rightarrow> 'a poller_scheme" where
  "ingest tag env batch p =
     (if batch = [] then p
      else
        let p1 = p\<lparr>offset := offset p + int (length batch)\<rparr>;
            p2 = p1\<lparr>channel := channel p1 @
                   [\<lparr>rows = batch,
                     start_offset_token = offset p1 - int (length batch),
                     end_offset_token = offset p1,
                     accepted = (append_result env = None)\<rparr>]\<rparr>
        in case append_result env of
             None \<Rightarrow>
               let p3 = p2\<lparr>total_ingested := total_ingested p2 + int (length batch)\<rparr>
               in p3\<lparr>log := log p3 @ [LogInfo tag (int (length batch)) (total_ingested p3)]\<rparr>
           | Some e \<Rightarrow> p2\<lparr>log := log p2 @ [LogError tag e]\<rparr>)"

section \<open>AggregatePoller\<close>

definition AggregatePoller_init :: poller where
  "AggregatePoller_init =
     \<lparr>total_ingested = 0, offset = 0, channel = [], requests = [], log = []\<rparr>"

definition agg_url :: "string \<Rightarrow> string" where
  "agg_url tk = POLYGON_REST_URL @ ''/v2/aggs/ticker/'' @ tk @ ''/prev''"

text \<open>The inner loop \<open>for result in data.get("results", [])\<close>: the rows appended before
  an exception stay in \<open>rows\<close>.\<close>

fun collect_results ::
  "(nat \<Rightarrow> string) \<Rightarrow> string \<Rightarrow> string \<Rightarrow> json list \<Rightarrow> envelope list \<Rightarrow> py_error option \<times> envelope list" where
  "collect_results clock src tk [] acc = (None, acc)"
| "collect_results clock src tk (r # rs) acc =
     (case set_item r ''ticker'' (JStr tk) of
        Inl e \<Rightarrow> (Some e, acc)
      | Inr r' \<Rightarrow>
          collect_results clock src tk rs
            (acc @ [\<lparr>RECORD_CONTENT = r',
                     RECORD_METADATA =
                       \<lparr>ingested_at = clock (length acc), source = src, ticker = Some tk\<rparr>\<rparr>]))"

text \<open>The body of the \<open>try\<close> for one ticker: the exception it ends with, if any, and the
  rows.\<close>

definition fetch_ticker ::
  "cycle_env \<Rightarrow> string \<Rightarrow> string \<Rightarrow> string \<Rightarrow> envelope list \<Rightarrow> py_error option \<times> envelope list" where
  "fetch_ticker env src url tk acc =
     (case api_get env url of
        Inl e \<Rightarrow> (Some e, acc)
      | Inr data \<Rightarrow>
          (case dict_get data ''results'' (JArr []) of
             Inl e \<Rightarrow> (Some e, acc)
           | Inr v \<Rightarrow>
               (case py_iter v of
                  Inl e \<Rightarrow> (Some e, acc)
                | Inr rs \<Rightarrow> collect_results (now env) src tk rs acc)))"

text \<open>\<open>for ticker in TICKERS\<close>, with the \<open>break\<close> on shutdown and the \<open>except\<close> that
  logs and goes on.\<close>

fun ticker_loop ::
  "cycle_env \<Rightarrow> string \<Rightarrow> string \<Rightarrow> (string \<Rightarrow> string) \<Rightarrow> string list \<Rightarrow> 'a poller_scheme \<Rightarrow> envelope list
     \<Rightarrow> 'a poller_scheme \<times> envelope list" where
  "ticker_loop env tag src url [] p acc = (p, acc)"
| "ticker_loop env tag src url (tk # tks) p acc =
     (if is_set env tk then (p, acc)
      else
        let p1 = p\<lparr>requests := requests p @ [url tk]\<rparr>
        in case fetch_ticker env src (url tk) tk acc of
             (None, acc') \<Rightarrow> ticker_loop env tag src url tks p1 acc'
           | (Some e, acc') \<Rightarrow>
               ticker_loop env tag src url tks (p1\<lparr>log := log p1 @ [LogError (tag @ tk) e]\<rparr>) acc')"

definition AggregatePoller_fetch_and_ingest :: "cycle_env \<Rightarrow> poller \<Rightarrow> py_error + poller" where
  "AggregatePoller_fetch_and_ingest env p =
     (case ticker_loop env ''AGG | Error fetching '' ''polygon_rest_aggs'' agg_url TICKERS p [] of
        (p1, batch) \<Rightarrow> Inr (ingest ''AGG'' env batch p1))"


section \<open>HistoricalAggPoller\<close>

definition HistoricalAggPoller_init :: hist_poller where
  "HistoricalAggPoller_init =
     \<lparr>total_ingested = 0, offset = 0, channel = [], requests = [], log = [], loaded = False\<rparr>"

definition hist_url :: "cycle_env \<Rightarrow> string \<Rightarrow> string" where
  "hist_url env tk =
     POLYGON_REST_URL @ ''/v2/aggs/ticker/'' @ tk @ ''/range/1/day/'' @ thirty_days_ago env @ ''/'' @ today env"

text \<open>The append step of the historical poller also sets \<open>loaded\<close>, after a call that
  returned.\<close>

definition hist_ingest :: "cycle_env \<Rightarrow> envelope list \<Rightarrow> hist_poller \<Rightarrow> hist_poller" where
  "hist_ingest env batch p =
     (let p' = ingest ''HIST'' env batch p
      in if batch \<noteq> [] \<and> append_result env = None then p'\<lparr>loaded := True\<rparr> else p')"

definition HistoricalAggPoller_fetch_and_ingest :: "cycle_env \<Rightarrow> hist_poller \<Rightarrow> py_error + hist_poller" where
  "HistoricalAggPoller_fetch_and_ingest env p =
     (if loaded p then Inr p
      else
        case ticker_loop env ''HIST | Error fetching '' ''polygon_rest_daily_bars'' (hist_url env) TICKERS p [] of
          (p1, batch) \<Rightarrow> Inr (hist_ingest env batch p1))"

fun HistoricalAggPoller_cycles :: "cycle_env list \<Rightarrow> hist_poller \<Rightarrow> py_error + hist_poller" where
  "HistoricalAggPoller_cycles [] p = Inr p"
| "HistoricalAggPoller_cycles (env # envs) p =
     (case HistoricalAggPoller_fetch_and_ingest env p of
        Inl e \<Rightarrow> Inl e
      | Inr p' \<Rightarrow> HistoricalAggPoller_cycles envs p')"

section \<open>NewsPoller\<close>

definition NewsPoller_init :: news_poller where
  "NewsPoller_init =
     \<lparr>total_ingested = 0, offset = 0, channel = [], requests = [], log = [], seen_ids = []\<rparr>"

definition news_url :: string where
  "news_url = POLYGON_REST_URL @ ''/v2/reference/news''"

text \<open>
  \<open>seen_ids\<close> is a Python set. It is kept as a list without duplicates (an identifier is
  added only after the test \<open>not in\<close>). The order of that list has no meaning of its
  own: \<open>list(self.seen_ids)\<close> enumerates by position in the hash table, whatever the
  order of insertion was, so every enumeration goes through \<open>set_to_list\<close>.
\<close>

definition set_to_list :: "cycle_env \<Rightarrow> key list \<Rightarrow> key list" where
  "set_to_list env ks = sort_key (slot env) ks"

text \<open>\<open>set(list(self.seen_ids)[-2500:])\<close>: the last 2500 of the enumeration (all of it
  when it is shorter).\<close>

definition trim_seen :: "cycle_env \<Rightarrow> key list \<Rightarrow> key list" where
  "trim_seen env ks = (let l = set_to_list env ks in drop (length l - 2500) l)"

text \<open>The loop \<open>for article in data.get("results", [])\<close>.\<close>

fun news_scan ::
  "(nat \<Rightarrow> string) \<Rightarrow> json list \<Rightarrow> key list \<Rightarrow> envelope list \<Rightarrow> py_error option \<times> key list \<times> envelope list" where
  "news_scan clock [] seen acc = (None, seen, acc)"
| "news_scan clock (article # rest) seen acc =
     (case dict_get article ''id'' JNull of
        Inl e \<Rightarrow> (Some e, seen, acc)
      | Inr article_id \<Rightarrow>
          if truthy article_id then
            (case py_hash_key article_id of
               Inl e \<Rightarrow> (Some e, seen, acc)
             | Inr k \<Rightarrow>
                 if k \<notin> set seen then
                   news_scan clock rest (seen @ [k])
                     (acc @ [\<lparr>RECORD_CONTENT = article,
                              RECORD_METADATA =
                                \<lparr>ingested_at = clock (length acc), source = ''polygon_rest_news'',
                                 ticker = None\<rparr>\<rparr>])
                 else news_scan clock rest seen acc)
          else news_scan clock rest seen acc)"

text \<open>The request and the loop, the first statements of the \<open>try\<close>: the exception
  they end with, if any, with the identifiers and the rows collected until then.\<close>

definition news_collect :: "cycle_env \<Rightarrow> key list \<Rightarrow> py_error option \<times> key list \<times> envelope list" where
  "news_collect env seen =
     (case api_get env news_url of
        Inl e \<Rightarrow> (Some e, seen, [])
      | Inr data \<Rightarrow>
          (case dict_get data ''results'' (JArr []) of
             Inl e \<Rightarrow> (Some e, seen, [])
           | Inr v \<Rightarrow>
               (case py_iter v of
                  Inl e \<Rightarrow> (Some e, seen, [])
                | Inr articles \<Rightarrow> news_scan (now env) articles seen [])))"

text \<open>The whole body of the \<open>try\<close>: an exception skips the trim.\<close>

definition news_try :: "cycle_env \<Rightarrow> key list \<Rightarrow> py_error option \<times> key list \<times> envelope list" where
  "news_try env seen =
     (case news_collect env seen of
        (Some e, seen1, batch) \<Rightarrow> (Some e, seen1, batch)
      | (None, seen1, batch) \<Rightarrow>
          (None, if length seen1 > 5000 then trim_seen env seen1 else seen1, batch))"

definition NewsPoller_fetch_and_ingest :: "cycle_env \<Rightarrow> news_poller \<Rightarrow> py_error + news_poller" where
  "NewsPoller_fetch_and_ingest env p =
     (let p1 = p\<lparr>requests := requests p @ [news_url]\<rparr>
      in case news_try env (seen_ids p1) of
           (err, seen', batch) \<Rightarrow>
             let p2 = p1\<lparr>seen_ids := seen'\<rparr>;
                 p3 = (case err of
                         None \<Rightarrow> p2
                       | Some e \<Rightarrow> p2\<lparr>log := log p2 @ [LogError ''NEWS | Error fetching'' e]\<rparr>)
             in Inr (ingest ''NEWS'' env batch p3))"

fun NewsPoller_cycles :: "cycle_env list \<Rightarrow> news_poller \<Rightarrow> py_error + news_poller" where
  "NewsPoller_cycles [] p = Inr p"
| "NewsPoller_cycles (env # envs) p =
     (case NewsPoller_fetch_and_ingest env p of
        Inl e \<Rightarrow> Inl e
      | Inr p' \<Rightarrow> NewsPoller_cycles envs p')"

section \<open>Offset windows of a channel\<close>


definition attempted :: "append_call list \<Rightarrow> int" where
  "attempted cs = sum_list (map (\<lambda>c. int (length (rows c))) cs)"


section \<open>Sample environments\<close>


section \<open>What a response carries\<close>

text \<open>
  The upstream interface returns an object with a \<open>results\<close> array of objects.
  \<open>well_formed\<close> holds of an outcome of \<open>api_get\<close> that is an exception or a body of
  that shape (the array may be absent); \<open>results_of\<close> is the list of records it carries,
  none for an exception.
\<close>

fun is_obj :: "json \<Rightarrow> bool" where
  "is_obj (JObj kvs) = True"
| "is_obj _ = False"

fun results_of :: "py_error + json \<Rightarrow> json list" where
  "results_of (Inr (JObj kvs)) = (case map_of kvs ''results'' of Some (JArr xs) \<Rightarrow> xs | _ \<Rightarrow> [])"
| "results_of _ = []"

fun well_formed :: "py_error + json \<Rightarrow> bool" where
  "well_formed (Inl e) = True"
| "well_formed (Inr (JObj kvs)) =
     (case map_of kvs ''results'' of
        None \<Rightarrow> True
      | Some (JArr xs) \<Rightarrow> list_all is_obj xs
      | Some _ \<Rightarrow> False)"
| "well_formed (Inr _) = False"

text \<open>
  The batch the spec describes for a per-ticker poller: the records of the tickers whose
  fetch succeeded, ticker by ticker in the order fetched, each record tagged with its
  ticker and wrapped with the \<open>n\<close>-th clock reading, the source tag and the ticker.
\<close>

fun with_ticker :: "string \<Rightarrow> json \<Rightarrow> json" where
  "with_ticker tk (JObj kvs) = JObj (AList.update ''ticker'' (JStr tk) kvs)"
| "with_ticker tk j = j"

definition stamp :: "(nat \<Rightarrow> string) \<Rightarrow> string \<Rightarrow> nat \<Rightarrow> (string \<times> json) list \<Rightarrow> envelope list" where
  "stamp clock src n prs =
     map (\<lambda>(i, tk, r).
            \<lparr>RECORD_CONTENT = with_ticker tk r,
             RECORD_METADATA = \<lparr>ingested_at = clock i, source = src, ticker = Some tk\<rparr>\<rparr>)
         (enumerate n prs)"

definition tagged_records :: "cycle_env \<Rightarrow> (string \<Rightarrow> string) \<Rightarrow> string list \<Rightarrow> (string \<times> json) list" where
  "tagged_records env url tks =
     concat (map (\<lambda>tk. map (Pair tk) (results_of (http_get env (url tk)))) tks)"

definition fetched :: "cycle_env \<Rightarrow> string list \<Rightarrow> string list" where
  "fetched env tks = takeWhile (\<lambda>tk. \<not> is_set env tk) tks"

definition successful_records :: "cycle_env \<Rightarrow> string \<Rightarrow> (string \<Rightarrow> string) \<Rightarrow> string list \<Rightarrow> envelope list" where
  "successful_records env src url tks = stamp (now env) src 0 (tagged_records env url (fetched env tks))"

text \<open>
  What the loop over one response keeps, whatever the body is: \<open>items_of\<close> is what
  \<open>for result in data.get("results", [])\<close> iterates over, nothing when the fetch, the
  \<open>get\<close> or the iteration raises; \<open>kept_records\<close> are the items before the first
  one that is not an object, at which the assignment \<open>result["ticker"] = ticker\<close>
  raises. \<open>kept_batch\<close> wraps them as \<open>successful_records\<close> does, and
  \<open>append_calls\<close> is the call made for a batch: none for an empty one.
\<close>

fun items_of :: "py_error + json \<Rightarrow> json list" where
  "items_of (Inl e) = []"
| "items_of (Inr d) =
     (case dict_get d ''results'' (JArr []) of
        Inl e \<Rightarrow> []
      | Inr v \<Rightarrow> (case py_iter v of Inl e \<Rightarrow> [] | Inr xs \<Rightarrow> xs))"

definition kept_records :: "py_error + json \<Rightarrow> json list" where
  "kept_records outcome = takeWhile is_obj (items_of outcome)"

definition kept_tagged :: "cycle_env \<Rightarrow> (string \<Rightarrow> string) \<Rightarrow> string list \<Rightarrow> (string \<times> json) list" where
  "kept_tagged env url tks =
     concat (map (\<lambda>tk. map (Pair tk) (kept_records (http_get env (url tk)))) tks)"

definition kept_batch :: "cycle_env \<Rightarrow> string \<Rightarrow> (string \<Rightarrow> string) \<Rightarrow> string list \<Rightarrow> envelope list" where
  "kept_batch env src url tks = stamp (now env) src 0 (kept_tagged env url (fetched env tks))"

definition append_calls :: "cycle_env \<Rightarrow> int \<Rightarrow> envelope list \<Rightarrow> append_call list" where
  "append_calls env off batch =
     (if batch = [] then []
      else [\<lparr>rows = batch, start_offset_token = off,
             end_offset_token = off + int (length batch),
             accepted = (append_result env = None)\<rparr>])"

section \<open>Identifiers of news rows\<close>

definition article_id :: "envelope \<Rightarrow> json" where
  "article_id e = (case dict_get (RECORD_CONTENT e) ''id'' JNull of Inr v \<Rightarrow> v | Inl x \<Rightarrow> JNull)"

definition row_key :: "envelope \<Rightarrow> key" where
  "row_key e = (case py_hash_key (article_id e) of Inr k \<Rightarrow> k | Inl x \<Rightarrow> KNone)"

definition delivered :: "'a poller_scheme \<Rightarrow> envelope list" where
  "delivered p = concat (map rows (channel p))"

text \<open>\<open>trims env seen\<close>: the statement that trims \<open>seen_ids\<close> runs in this cycle.\<close>

definition trims :: "cycle_env \<Rightarrow> key list \<Rightarrow> bool" where
  "trims env seen =
     (case news_collect env seen of
        (None, seen1, batch) \<Rightarrow> length seen1 > 5000
      | (Some e, seen1, batch) \<Rightarrow> False)"

fun never_trims :: "cycle_env list \<Rightarrow> news_poller \<Rightarrow> bool" where
  "never_trims [] p = True"
| "never_trims (env # envs) p =
     (\<not> trims env (seen_ids p) \<and>
      (case NewsPoller_fetch_and_ingest env p of
         Inl e \<Rightarrow> True
       | Inr p' \<Rightarrow> never_trims envs p'))"

section \<open>Sample cycles of the per-ticker pollers\<close>

text \<open>The scenario of the spec: seven tickers, the fetch of TSLA fails, every other
  fetch yields one result.\<close>

definition scenario_env :: cycle_env where
  "scenario_env =
     \<lparr>http_get = (\<lambda>u. if u = agg_url ''TSLA'' then Inl HTTPError
                        else Inr (JObj [(''status'', JStr ''OK''),
                                        (''results'', JArr [JObj [(''c'', JNum 190)]])])),
      is_set = (\<lambda>t. False),
      now = (\<lambda>n. ''2024-01-02T00:00:00+00:00''),
      append_result = None,
      today = ''2024-01-02'',
      thirty_days_ago = ''2023-12-03'',
      slot = (\<lambda>k. 0)\<rparr>"

text \<open>A cycle with every kind of outcome: bars, exceptions, a body without results.\<close>

definition mixed_env :: cycle_env where
  "mixed_env =
     \<lparr>http_get = (\<lambda>u.
         if u = agg_url ''AAPL'' then Inr (JObj [(''results'', JArr [JObj [(''c'', JNum 190)]])])
         else if u = agg_url ''MSFT'' then Inl HTTPError
         else if u = agg_url ''GOOGL'' then
           Inr (JObj [(''results'', JArr [JObj [(''c'', JNum 140)], JObj [(''c'', JNum 141)]])])
         else if u = agg_url ''AMZN'' then Inl Timeout
         else if u = agg_url ''TSLA'' then Inr (JObj [(''status'', JStr ''OK'')])
         else if u = agg_url ''NVDA'' then Inr (JObj [(''results'', JArr [JObj [(''c'', JNum 480)]])])
         else Inl JSONDecodeError),
      is_set = (\<lambda>t. False),
      now = (\<lambda>n. ''2024-01-02T00:00:00+00:00''),
      append_result = None,
      today = ''2024-01-02'',
      thirty_days_ago = ''2023-12-03'',
      slot = (\<lambda>k. 0)\<rparr>"


text \<open>A cycle in which only AAPL answers, with a results list whose second element is
  a number between two bars.\<close>

definition bad_env :: cycle_env where
  "bad_env =
     \<lparr>http_get = (\<lambda>u. if u = agg_url ''AAPL''
                        then Inr (JObj [(''results'',
                               JArr [JObj [(''c'', JNum 1)], JNum 5, JObj [(''c'', JNum 3)]])])
                        else Inl HTTPError),
      is_set = (\<lambda>t. False),
      now = (\<lambda>n. ''2024-01-02T00:00:00+00:00''),
      append_result = None,
      today = ''2024-01-02'',
      thirty_days_ago = ''2023-12-03'',
      slot = (\<lambda>k. 0)\<rparr>"

section \<open>Invariants of the news poller\<close>

text \<open>The keys of truthy identifiers.\<close>

fun key_truthy :: "key \<Rightarrow> bool" where
  "key_truthy KNone = False"
| "key_truthy (KNum n) = (n \<noteq> 0)"
| "key_truthy (KStr s) = (s \<noteq> [])"

text \<open>Without a trim, \<open>seen_ids\<close> is the list of the keys of the rows passed to
  \<open>append_rows\<close> so far, without repetition.\<close>

definition dedup_inv :: "news_poller \<Rightarrow> bool" where
  "dedup_inv p = (distinct (seen_ids p) \<and> seen_ids p = map row_key (delivered p))"

text \<open>No falsy identifier is in \<open>seen_ids\<close> or in a row passed to \<open>append_rows\<close>.\<close>

definition falsy_inv :: "news_poller \<Rightarrow> bool" where
  "falsy_inv p =
     (list_all key_truthy (seen_ids p) \<and> list_all (\<lambda>e. truthy (article_id e)) (delivered p))"

section \<open>Sample news responses\<close>

text \<open>A news response with the given articles; \<open>r\<close> is what the sink does. Small
  non-negative integers sit in the hash table of a set at the position of their value.\<close>

definition article :: "json \<Rightarrow> json" where
  "article i = JObj [(''id'', i), (''title'', JStr ''headline'')]"

definition news_env :: "json list \<Rightarrow> py_error option \<Rightarrow> cycle_env" where
  "news_env articles r =
     \<lparr>http_get = (\<lambda>u. if u = news_url then Inr (JObj [(''results'', JArr articles)])
                        else Inl HTTPError),
      is_set = (\<lambda>t. False),
      now = (\<lambda>n. ''2024-01-02T00:00:00+00:00''),
      append_result = r,
      today = ''2024-01-02'',
      thirty_days_ago = ''2023-12-03'',
      slot = (\<lambda>k. case k of KNum n \<Rightarrow> nat n | _ \<Rightarrow> 0)\<rparr>"

text \<open>
  A long run with integer identifiers: one hundred cycles of fifty new articles each,
  with the identifiers 2 to 5001, then a cycle whose response holds one new article,
  with the identifier 1.
\<close>

definition knum :: "nat \<Rightarrow> key" where
  "knum n = KNum (int n)"

definition int_article :: "nat \<Rightarrow> json" where
  "int_article n = article (JNum (int n))"

definition warm_env :: "nat \<Rightarrow> cycle_env" where
  "warm_env j = news_env (map int_article [50 * j + 2 ..< 50 * j + 52]) None"

definition warmup :: "cycle_env list" where
  "warmup = map warm_env [0 ..< 100]"

definition latest_env :: cycle_env where
  "latest_env = news_env [int_article 1] None"

section \<open>Facts about the append step and the ticker loop\<close>

lemma attempted_simps [simp]:
  "attempted [] = 0"
  "attempted (c # cs) = int (length (rows c)) + attempted cs"
  "attempted (cs @ ds) = attempted cs + attempted ds"
  by (simp_all add: attempted_def)


lemma ingest_channel:
  "channel (ingest tag env batch p) =
     channel p @ (if batch = [] then []
                  else [\<lparr>rows = batch, start_offset_token = offset p,
                         end_offset_token = offset p + int (length batch),
                         accepted = (append_result env = None)\<rparr>])"
  by (simp add: ingest_def Let_def split: option.splits)


lemma ingest_total:
  "total_ingested (ingest tag env batch p) =
     total_ingested p + (if append_result env = None then int (length batch) else 0)"
  by (simp add: ingest_def Let_def split: option.splits)

lemma ingest_requests: "requests (ingest tag env batch p) = requests p"
  by (simp add: ingest_def Let_def split: option.splits)

lemma ingest_more: "poller.more (ingest tag env batch p) = poller.more p"
  by (simp add: ingest_def Let_def split: option.splits)

lemma ticker_loop_channel:
  "channel (fst (ticker_loop env tag src url tks p acc)) = channel p"
  by (induction tks arbitrary: p acc) (simp_all add: Let_def split: prod.split option.split)

lemma ticker_loop_offset:
  "offset (fst (ticker_loop env tag src url tks p acc)) = offset p"
  by (induction tks arbitrary: p acc) (simp_all add: Let_def split: prod.split option.split)


lemma ticker_loop_more:
  "poller.more (fst (ticker_loop env tag src url tks p acc)) = poller.more p"
  by (induction tks arbitrary: p acc) (simp_all add: Let_def split: prod.split option.split)










lemmas eval_defs =
  AggregatePoller_fetch_and_ingest_def AggregatePoller_init_def TICKERS_def agg_url_def
  POLYGON_REST_URL_def fetch_ticker_def api_get_def ingest_def Let_def

section \<open>Facts about the batch of a per-ticker poller\<close>

lemma stamp_Nil [simp]: "stamp clock src n [] = []"
  by (simp add: stamp_def)

lemma stamp_append:
  "stamp clock src n (xs @ ys) = stamp clock src n xs @ stamp clock src (n + length xs) ys"
  by (simp add: stamp_def enumerate_append_eq)

lemma stamp_Cons:
  "stamp clock src n ((tk, r) # prs) =
     \<lparr>RECORD_CONTENT = with_ticker tk r,
      RECORD_METADATA = \<lparr>ingested_at = clock n, source = src, ticker = Some tk\<rparr>\<rparr>
     # stamp clock src (Suc n) prs"
  by (simp add: stamp_def)

lemma length_stamp [simp]: "length (stamp clock src n prs) = length prs"
  by (simp add: stamp_def)

lemma stamp_tickers: "map (ticker \<circ> RECORD_METADATA) (stamp clock src n prs) = map (Some \<circ> fst) prs"
  by (induction prs arbitrary: n) (auto simp: stamp_Cons)

lemma stamp_sources: "map (source \<circ> RECORD_METADATA) (stamp clock src n prs) = replicate (length prs) src"
  by (induction prs arbitrary: n) (auto simp: stamp_Cons)

lemma collect_results_objs:
  "list_all is_obj rs \<Longrightarrow>
     collect_results clock src tk rs acc = (None, acc @ stamp clock src (length acc) (map (Pair tk) rs))"
proof (induction rs arbitrary: acc)
  case Nil
  show ?case by simp
next
  case (Cons r rs)
  then obtain kvs where r: "r = JObj kvs" by (cases r) auto
  from Cons show ?case by (simp add: r stamp_Cons)
qed

lemma fetch_ticker_wf:
  "well_formed (http_get env u) \<Longrightarrow>
     snd (fetch_ticker env src u tk acc) =
       acc @ stamp (now env) src (length acc) (map (Pair tk) (results_of (http_get env u)))"
proof (cases "http_get env u")
  case (Inl e)
  then show ?thesis by (simp add: fetch_ticker_def api_get_def)
next
  case (Inr d)
  assume wf: "well_formed (http_get env u)"
  with Inr obtain kvs where d: "d = JObj kvs" by (cases d) auto
  show ?thesis
  proof (cases "map_of kvs ''results''")
    case None
    then show ?thesis by (simp add: fetch_ticker_def api_get_def Inr d)
  next
    case (Some v)
    with wf Inr d obtain xs where v: "v = JArr xs" and objs: "list_all is_obj xs"
      by (cases v) auto
    show ?thesis
      by (simp add: fetch_ticker_def api_get_def Inr d Some v collect_results_objs [OF objs])
  qed
qed



lemma ticker_loop_wf:
  "list_all (\<lambda>tk. well_formed (http_get env (url tk))) (fetched env tks) \<Longrightarrow>
     snd (ticker_loop env tag src url tks p acc) =
       acc @ stamp (now env) src (length acc) (tagged_records env url (fetched env tks))"
proof (induction tks arbitrary: p acc)
  case Nil
  show ?case by (simp add: fetched_def tagged_records_def)
next
  case (Cons tk tks)
  show ?case
  proof (cases "is_set env tk")
    case True
    then show ?thesis by (simp add: fetched_def tagged_records_def)
  next
    case False
    with Cons.prems have wf: "well_formed (http_get env (url tk))"
      and rest: "list_all (\<lambda>tk. well_formed (http_get env (url tk))) (fetched env tks)"
      by (simp_all add: fetched_def)
    obtain err acc' where ft: "fetch_ticker env src (url tk) tk acc = (err, acc')"
      by (cases "fetch_ticker env src (url tk) tk acc") auto
    with fetch_ticker_wf [OF wf, of src tk acc]
    have acc': "acc' = acc @ stamp (now env) src (length acc)
                         (map (Pair tk) (results_of (http_get env (url tk))))"
      by simp
    have tr: "tagged_records env url (fetched env (tk # tks)) =
                map (Pair tk) (results_of (http_get env (url tk))) @
                tagged_records env url (fetched env tks)"
      using False by (simp add: fetched_def tagged_records_def)
    show ?thesis
      using False ft Cons.IH [OF rest]
      by (cases err) (simp_all add: Let_def acc' tr stamp_append)
  qed
qed

lemma agg_result:
  "AggregatePoller_fetch_and_ingest env p =
     Inr (ingest ''AGG'' env
            (snd (ticker_loop env ''AGG | Error fetching '' ''polygon_rest_aggs'' agg_url TICKERS p []))
            (fst (ticker_loop env ''AGG | Error fetching '' ''polygon_rest_aggs'' agg_url TICKERS p [])))"
  by (simp add: AggregatePoller_fetch_and_ingest_def split: prod.split)

lemma hist_result:
  "\<not> loaded p \<Longrightarrow> HistoricalAggPoller_fetch_and_ingest env p =
     Inr (hist_ingest env
            (snd (ticker_loop env ''HIST | Error fetching '' ''polygon_rest_daily_bars'' (hist_url env) TICKERS p []))
            (fst (ticker_loop env ''HIST | Error fetching '' ''polygon_rest_daily_bars'' (hist_url env) TICKERS p [])))"
  by (simp add: HistoricalAggPoller_fetch_and_ingest_def split: prod.split)

lemma agg_channel:
  "channel (projr (AggregatePoller_fetch_and_ingest env p)) =
     channel p @
     (let b = snd (ticker_loop env ''AGG | Error fetching '' ''polygon_rest_aggs'' agg_url TICKERS p [])
      in if b = [] then []
         else [\<lparr>rows = b, start_offset_token = offset p,
                end_offset_token = offset p + int (length b),
                accepted = (append_result env = None)\<rparr>])"
  by (simp add: agg_result ingest_channel ticker_loop_channel ticker_loop_offset Let_def)

lemma hist_ingest_channel:
  "channel (hist_ingest env batch p) = channel (ingest ''HIST'' env batch p)"
  by (simp add: hist_ingest_def Let_def)


lemma hist_channel:
  "\<not> loaded p \<Longrightarrow> channel (projr (HistoricalAggPoller_fetch_and_ingest env p)) =
     channel p @
     (let b = snd (ticker_loop env ''HIST | Error fetching '' ''polygon_rest_daily_bars'' (hist_url env) TICKERS p [])
      in if b = [] then []
         else [\<lparr>rows = b, start_offset_token = offset p,
                end_offset_token = offset p + int (length b),
                accepted = (append_result env = None)\<rparr>])"
  by (simp add: hist_result hist_ingest_channel ingest_channel ticker_loop_channel ticker_loop_offset Let_def)

lemma tagged_fst:
  "\<forall>tk\<in>set tks. length (results_of (http_get env (url tk))) = (if tk = f then 0 else 1) \<Longrightarrow>
     map fst (tagged_records env url tks) = filter (\<lambda>tk. tk \<noteq> f) tks"
proof (induction tks)
  case Nil
  show ?case by (simp add: tagged_records_def)
next
  case (Cons tk tks)
  then have ih: "map fst (tagged_records env url tks) = filter (\<lambda>tk. tk \<noteq> f) tks"
    by simp
  have split: "tagged_records env url (tk # tks) =
      map (Pair tk) (results_of (http_get env (url tk))) @ tagged_records env url tks"
    by (simp add: tagged_records_def)
  show ?case
  proof (cases "tk = f")
    case True
    with Cons.prems have "results_of (http_get env (url tk)) = []" by simp
    with True ih split show ?thesis by simp
  next
    case False
    with Cons.prems have "length (results_of (http_get env (url tk))) = 1" by simp
    then obtain x where "results_of (http_get env (url tk)) = [x]"
      by (cases "results_of (http_get env (url tk))") auto
    with False ih split show ?thesis by simp
  qed
qed

lemma tickers_without_one:
  "f \<in> set TICKERS \<Longrightarrow> length (filter (\<lambda>tk. tk \<noteq> f) TICKERS) = 6"
  by (auto simp: TICKERS_def)

lemmas url_defs = TICKERS_def agg_url_def hist_url_def POLYGON_REST_URL_def




lemma collect_results_kept:
  "snd (collect_results clock src tk rs acc) =
     acc @ stamp clock src (length acc) (map (Pair tk) (takeWhile is_obj rs))"
proof (induction rs arbitrary: acc)
  case Nil
  show ?case by simp
next
  case (Cons r rs)
  show ?case
  proof (cases "is_obj r")
    case True
    then obtain kvs where r: "r = JObj kvs" by (cases r) auto
    show ?thesis by (simp add: r Cons.IH stamp_Cons)
  next
    case False
    then have "set_item r ''ticker'' (JStr tk) = Inl TypeError" by (cases r) auto
    with False show ?thesis by simp
  qed
qed

lemma fetch_ticker_kept:
  "snd (fetch_ticker env src u tk acc) =
     acc @ stamp (now env) src (length acc) (map (Pair tk) (kept_records (http_get env u)))"
proof (cases "http_get env u")
  case (Inl e)
  then show ?thesis by (simp add: fetch_ticker_def api_get_def kept_records_def)
next
  case (Inr d)
  note d = this
  show ?thesis
  proof (cases "dict_get d ''results'' (JArr [])")
    case (Inl e)
    with d show ?thesis by (simp add: fetch_ticker_def api_get_def kept_records_def)
  next
    case (Inr v)
    note v = this
    show ?thesis
    proof (cases "py_iter v")
      case (Inl e)
      with d v show ?thesis by (simp add: fetch_ticker_def api_get_def kept_records_def)
    next
      case (Inr xs)
      with d v show ?thesis
        by (simp add: fetch_ticker_def api_get_def kept_records_def collect_results_kept)
    qed
  qed
qed

lemma ticker_loop_kept:
  "snd (ticker_loop env tag src url tks p acc) =
     acc @ stamp (now env) src (length acc) (kept_tagged env url (fetched env tks))"
proof (induction tks arbitrary: p acc)
  case Nil
  show ?case by (simp add: fetched_def kept_tagged_def)
next
  case (Cons tk tks)
  show ?case
  proof (cases "is_set env tk")
    case True
    then show ?thesis by (simp add: fetched_def kept_tagged_def)
  next
    case False
    obtain err acc' where ft: "fetch_ticker env src (url tk) tk acc = (err, acc')"
      by (cases "fetch_ticker env src (url tk) tk acc") auto
    with fetch_ticker_kept [of env src "url tk" tk acc]
    have acc': "acc' = acc @ stamp (now env) src (length acc)
                         (map (Pair tk) (kept_records (http_get env (url tk))))"
      by simp
    have tr: "kept_tagged env url (fetched env (tk # tks)) =
                map (Pair tk) (kept_records (http_get env (url tk))) @
                kept_tagged env url (fetched env tks)"
      using False by (simp add: fetched_def kept_tagged_def)
    show ?thesis
      using False ft Cons.IH
      by (cases err) (simp_all add: Let_def acc' tr stamp_append)
  qed
qed

lemma kept_records_wf: "well_formed outcome \<Longrightarrow> kept_records outcome = results_of outcome"
proof (cases outcome)
  case (Inl e)
  then show ?thesis by (simp add: kept_records_def)
next
  case (Inr d)
  assume wf: "well_formed outcome"
  with Inr obtain kvs where d: "d = JObj kvs" by (cases d) auto
  show ?thesis
  proof (cases "map_of kvs ''results''")
    case None
    then show ?thesis by (simp add: kept_records_def Inr d)
  next
    case (Some v)
    with wf Inr d obtain xs where v: "v = JArr xs" and objs: "list_all is_obj xs"
      by (cases v) auto
    from objs have "takeWhile is_obj xs = xs"
      by (simp add: takeWhile_eq_all_conv list_all_iff)
    then show ?thesis by (simp add: kept_records_def Inr d Some v)
  qed
qed

lemma kept_tagged_wf:
  "list_all (\<lambda>tk. well_formed (http_get env (url tk))) tks \<Longrightarrow>
     kept_tagged env url tks = tagged_records env url tks"
  by (induction tks) (simp_all add: kept_tagged_def tagged_records_def kept_records_wf)

lemma kept_batch_wf:
  "list_all (\<lambda>tk. well_formed (http_get env (url tk))) (fetched env tks) \<Longrightarrow>
     kept_batch env src url tks = successful_records env src url tks"
  by (simp add: kept_batch_def successful_records_def kept_tagged_wf)

lemma agg_channel_kept:
  "channel (projr (AggregatePoller_fetch_and_ingest env p)) =
     channel p @ append_calls env (offset p) (kept_batch env ''polygon_rest_aggs'' agg_url TICKERS)"
  using ticker_loop_kept [of env "''AGG | Error fetching ''" "''polygon_rest_aggs''" agg_url TICKERS p "[]"]
  by (simp add: agg_channel Let_def append_calls_def kept_batch_def)

lemma hist_channel_kept:
  "channel (projr (HistoricalAggPoller_fetch_and_ingest env h)) =
     channel h @
     (if loaded h then []
      else append_calls env (offset h)
             (kept_batch env ''polygon_rest_daily_bars'' (hist_url env) TICKERS))"
proof (cases "loaded h")
  case True
  then show ?thesis by (simp add: HistoricalAggPoller_fetch_and_ingest_def)
next
  case False
  with ticker_loop_kept [of env "''HIST | Error fetching ''" "''polygon_rest_daily_bars''"
      "hist_url env" TICKERS h "[]"]
  show ?thesis
    by (simp add: hist_channel Let_def append_calls_def kept_batch_def)
qed

lemma hist_returns: "\<not> isl (HistoricalAggPoller_fetch_and_ingest env h)"
proof (cases "loaded h")
  case True
  then show ?thesis by (simp add: HistoricalAggPoller_fetch_and_ingest_def)
next
  case False
  then show ?thesis by (simp add: hist_result)
qed

section \<open>Facts about the news poller\<close>

lemma hash_key_truthy: "py_hash_key v = Inr k \<Longrightarrow> key_truthy k = truthy v"
  by (cases v) (auto split: if_splits)

text \<open>What the loop adds: rows with truthy, hashable identifiers that were not seen, and
  their keys, in the same order.\<close>

lemma news_scan_shape:
  "news_scan clock arts seen acc = (err, seen', acc') \<Longrightarrow>
     \<exists>added. acc' = acc @ added \<and> seen' = seen @ map row_key added \<and>
             list_all (\<lambda>e. truthy (article_id e) \<and> py_hash_key (article_id e) = Inr (row_key e)) added \<and>
             distinct (map row_key added) \<and> set (map row_key added) \<inter> set seen = {} \<and>
             set (map RECORD_CONTENT added) \<subseteq> set arts"
proof (induction arts arbitrary: seen acc)
  case Nil
  then show ?case by simp
next
  case (Cons a arts)
  show ?case
  proof (cases "dict_get a ''id'' JNull")
    case (Inl e)
    with Cons.prems show ?thesis by simp
  next
    case (Inr v)
    note v = this
    show ?thesis
    proof (cases "truthy v")
      case False
      with Cons.prems v have "news_scan clock arts seen acc = (err, seen', acc')" by simp
      from Cons.IH [OF this] show ?thesis by auto
    next
      case True
      note tv = this
      show ?thesis
      proof (cases "py_hash_key v")
        case (Inl e)
        with Cons.prems v tv show ?thesis by simp
      next
        case (Inr k)
        note k = this
        show ?thesis
        proof (cases "k \<in> set seen")
          case True
          with Cons.prems v tv k have "news_scan clock arts seen acc = (err, seen', acc')" by simp
          from Cons.IH [OF this] show ?thesis by auto
        next
          case False
          let ?row = "\<lparr>RECORD_CONTENT = a,
                         RECORD_METADATA = \<lparr>ingested_at = clock (length acc),
                                            source = ''polygon_rest_news'', ticker = None\<rparr>\<rparr>"
          have aid: "article_id ?row = v" by (simp add: article_id_def v)
          have rk: "row_key ?row = k" by (simp add: row_key_def aid k)
          from Cons.prems v tv k False
          have "news_scan clock arts (seen @ [k]) (acc @ [?row]) = (err, seen', acc')" by simp
          from Cons.IH [OF this] obtain added where
            a1: "acc' = (acc @ [?row]) @ added" and a2: "seen' = (seen @ [k]) @ map row_key added"
            and a3: "list_all (\<lambda>e. truthy (article_id e) \<and> py_hash_key (article_id e) = Inr (row_key e)) added"
            and a4: "distinct (map row_key added)" "set (map row_key added) \<inter> set (seen @ [k]) = {}"
            and a5: "set (map RECORD_CONTENT added) \<subseteq> set arts"
            by blast
          have "acc' = acc @ (?row # added)" using a1 by simp
          moreover have "seen' = seen @ map row_key (?row # added)" using a2 rk by simp
          moreover have "list_all (\<lambda>e. truthy (article_id e) \<and> py_hash_key (article_id e) = Inr (row_key e))
                           (?row # added)"
            using a3 aid rk tv k by simp
          moreover have "distinct (map row_key (?row # added))" using a4 rk by auto
          moreover have "set (map row_key (?row # added)) \<inter> set seen = {}"
            using a4 rk False by auto
          moreover have "set (map RECORD_CONTENT (?row # added)) \<subseteq> set (a # arts)"
            using a5 by auto
          ultimately show ?thesis by blast
        qed
      qed
    qed
  qed
qed

lemma news_collect_cases:
  "news_collect env seen = (err, seen', batch) \<Longrightarrow>
     (seen' = seen \<and> batch = []) \<or> (\<exists>arts. news_scan (now env) arts seen [] = (err, seen', batch))"
  by (auto simp: news_collect_def split: sum.splits)

lemma news_collect_shape:
  "news_collect env seen = (err, seen', batch) \<Longrightarrow>
     seen' = seen @ map row_key batch \<and>
     list_all (\<lambda>e. truthy (article_id e) \<and> py_hash_key (article_id e) = Inr (row_key e)) batch \<and>
     distinct (map row_key batch) \<and> set (map row_key batch) \<inter> set seen = {}"
proof -
  assume "news_collect env seen = (err, seen', batch)"
  from news_collect_cases [OF this] show ?thesis
  proof
    assume "seen' = seen \<and> batch = []"
    then show ?thesis by simp
  next
    assume "\<exists>arts. news_scan (now env) arts seen [] = (err, seen', batch)"
    then obtain arts where "news_scan (now env) arts seen [] = (err, seen', batch)" ..
    from news_scan_shape [OF this] obtain added where
      "batch = [] @ added" and r: "seen' = seen @ map row_key added"
      "list_all (\<lambda>e. truthy (article_id e) \<and> py_hash_key (article_id e) = Inr (row_key e)) added"
      "distinct (map row_key added)" "set (map row_key added) \<inter> set seen = {}"
      by blast
    then have "added = batch" by simp
    with r show ?thesis by simp
  qed
qed

lemma news_try_eq:
  "news_collect env seen = (err, seen1, batch) \<Longrightarrow>
     news_try env seen = (err, if trims env seen then trim_seen env seen1 else seen1, batch)"
  by (simp add: news_try_def trims_def split: option.split)

lemma news_result:
  assumes c: "news_collect env (seen_ids p) = (err, seen1, batch)"
  shows "\<exists>p'. NewsPoller_fetch_and_ingest env p = Inr p' \<and>
           seen_ids p' = (if trims env (seen_ids p) then trim_seen env seen1 else seen1) \<and>
           channel p' = channel p @
             (if batch = [] then []
              else [\<lparr>rows = batch, start_offset_token = offset p,
                     end_offset_token = offset p + int (length batch),
                     accepted = (append_result env = None)\<rparr>]) \<and>
           total_ingested p' =
             total_ingested p + (if append_result env = None then int (length batch) else 0) \<and>
           requests p' = requests p @ [news_url]"
proof -
  define seen2 where "seen2 = (if trims env (seen_ids p) then trim_seen env seen1 else seen1)"
  define p3 where "p3 =
    (case err of None \<Rightarrow> p\<lparr>requests := requests p @ [news_url], seen_ids := seen2\<rparr>
     | Some e \<Rightarrow> p\<lparr>requests := requests p @ [news_url], seen_ids := seen2,
                    log := log p @ [LogError ''NEWS | Error fetching'' e]\<rparr>)"
  have r: "NewsPoller_fetch_and_ingest env p = Inr (ingest ''NEWS'' env batch p3)"
    by (simp add: NewsPoller_fetch_and_ingest_def Let_def news_try_eq [OF c] p3_def seen2_def
        split: option.split)
  have f: "channel p3 = channel p" "offset p3 = offset p" "total_ingested p3 = total_ingested p"
    "requests p3 = requests p @ [news_url]" "seen_ids p3 = seen2"
    by (simp_all add: p3_def split: option.split)
  have m: "seen_ids (ingest ''NEWS'' env batch p3) = seen_ids p3"
    using ingest_more [of "''NEWS''" env batch p3]
    by (simp add: ingest_def Let_def split: option.split)
  show ?thesis
    by (simp add: r ingest_channel ingest_total ingest_requests f m seen2_def)
qed

lemma delivered_snoc:
  "channel p' = channel p @ (if batch = [] then [] else [c]) \<Longrightarrow> rows c = batch \<Longrightarrow>
     delivered p' = delivered p @ batch"
  by (simp add: delivered_def)

lemma trim_seen_subset: "set (trim_seen env ks) \<subseteq> set ks"
  using set_drop_subset [of "length ks - 2500" "sort_key (slot env) ks"]
  by (simp add: trim_seen_def set_to_list_def Let_def)

lemma trim_seen_length: "length (trim_seen env ks) = min (length ks) 2500"
  by (simp add: trim_seen_def set_to_list_def Let_def)

lemma trim_seen_distinct: "distinct ks \<Longrightarrow> distinct (trim_seen env ks)"
  by (simp add: trim_seen_def set_to_list_def Let_def)

text \<open>One cycle of the news poller, seen from outside.\<close>

lemma news_cycle:
  "\<exists>p' batch.
     NewsPoller_fetch_and_ingest env p = Inr p' \<and>
     delivered p' = delivered p @ batch \<and>
     (\<exists>new. channel p' = channel p @ new \<and> concat (map rows new) = batch \<and>
            list_all (\<lambda>c. accepted c = (append_result env = None)) new) \<and>
     seen_ids p' =
       (if trims env (seen_ids p) then trim_seen env (seen_ids p @ map row_key batch)
        else seen_ids p @ map row_key batch) \<and>
     list_all (\<lambda>e. truthy (article_id e) \<and> py_hash_key (article_id e) = Inr (row_key e)) batch \<and>
     distinct (map row_key batch) \<and> set (map row_key batch) \<inter> set (seen_ids p) = {} \<and>
     total_ingested p' =
       total_ingested p + (if append_result env = None then int (length batch) else 0)"
proof -
  obtain err seen1 batch where c: "news_collect env (seen_ids p) = (err, seen1, batch)"
    by (cases "news_collect env (seen_ids p)") auto
  from news_collect_shape [OF c] have s:
    "seen1 = seen_ids p @ map row_key batch"
    "list_all (\<lambda>e. truthy (article_id e) \<and> py_hash_key (article_id e) = Inr (row_key e)) batch"
    "distinct (map row_key batch)" "set (map row_key batch) \<inter> set (seen_ids p) = {}"
    by simp_all
  from news_result [OF c] obtain p' where p':
    "NewsPoller_fetch_and_ingest env p = Inr p'"
    "seen_ids p' = (if trims env (seen_ids p) then trim_seen env seen1 else seen1)"
    "channel p' = channel p @
             (if batch = [] then []
              else [\<lparr>rows = batch, start_offset_token = offset p,
                     end_offset_token = offset p + int (length batch),
                     accepted = (append_result env = None)\<rparr>])"
    "total_ingested p' =
             total_ingested p + (if append_result env = None then int (length batch) else 0)"
    by blast
  have d: "delivered p' = delivered p @ batch"
    using p'(3) by (simp add: delivered_def)
  have n: "\<exists>new. channel p' = channel p @ new \<and> concat (map rows new) = batch \<and>
            list_all (\<lambda>c. accepted c = (append_result env = None)) new"
    using p'(3) by (cases "batch = []") simp_all
  from p'(1) d n p'(2) s p'(4) show ?thesis by (simp only: s(1)) blast
qed

lemma news_cycle_dedup:
  assumes nt: "\<not> trims env (seen_ids p)" and inv: "dedup_inv p"
  shows "\<exists>p'. NewsPoller_fetch_and_ingest env p = Inr p' \<and> dedup_inv p'"
proof -
  from news_cycle [of env p] obtain p' batch where
    r: "NewsPoller_fetch_and_ingest env p = Inr p'"
    and d: "delivered p' = delivered p @ batch"
    and s: "seen_ids p' = seen_ids p @ map row_key batch"
    and k: "distinct (map row_key batch)" "set (map row_key batch) \<inter> set (seen_ids p) = {}"
    using nt by auto
  have "dedup_inv p'"
    using inv d s k by (auto simp: dedup_inv_def)
  with r show ?thesis by blast
qed

lemma news_run_dedup:
  "never_trims envs p \<Longrightarrow> dedup_inv p \<Longrightarrow>
     \<exists>p'. NewsPoller_cycles envs p = Inr p' \<and> dedup_inv p'"
proof (induction envs arbitrary: p)
  case Nil
  then show ?case by simp
next
  case (Cons env envs)
  from Cons.prems have nt: "\<not> trims env (seen_ids p)" by simp
  from news_cycle_dedup [OF nt Cons.prems(2)] obtain p1
    where r: "NewsPoller_fetch_and_ingest env p = Inr p1" and i: "dedup_inv p1" by blast
  from Cons.prems r have "never_trims envs p1" by simp
  from Cons.IH [OF this i] r show ?case by simp
qed

lemma news_run_later:
  "never_trims envs p \<Longrightarrow>
     \<exists>p' later. NewsPoller_cycles envs p = Inr p' \<and> channel p' = channel p @ later \<and>
       set (seen_ids p) \<subseteq> set (seen_ids p') \<and>
       set (map row_key (concat (map rows later))) \<inter> set (seen_ids p) = {}"
proof (induction envs arbitrary: p)
  case Nil
  then show ?case by simp
next
  case (Cons env envs)
  from Cons.prems have nt: "\<not> trims env (seen_ids p)" by simp
  from news_cycle [of env p] obtain p1 batch new where
    r: "NewsPoller_fetch_and_ingest env p = Inr p1"
    and c: "channel p1 = channel p @ new" "concat (map rows new) = batch"
    and s: "seen_ids p1 = seen_ids p @ map row_key batch"
    and k: "set (map row_key batch) \<inter> set (seen_ids p) = {}"
    using nt by auto
  from Cons.prems r have "never_trims envs p1" by simp
  from Cons.IH [OF this] obtain p2 later where
    r2: "NewsPoller_cycles envs p1 = Inr p2" and c2: "channel p2 = channel p1 @ later"
    and s2: "set (seen_ids p1) \<subseteq> set (seen_ids p2)"
    and k2: "set (map row_key (concat (map rows later))) \<inter> set (seen_ids p1) = {}"
    by blast
  have "NewsPoller_cycles (env # envs) p = Inr p2" using r r2 by simp
  moreover have "channel p2 = channel p @ (new @ later)" using c c2 by simp
  moreover have "set (seen_ids p) \<subseteq> set (seen_ids p2)" using s s2 by auto
  moreover have "set (map row_key (concat (map rows (new @ later)))) \<inter> set (seen_ids p) = {}"
  proof -
    have a: "set (map row_key (concat (map rows new))) \<inter> set (seen_ids p) = {}"
      using c k by simp
    have "set (seen_ids p) \<subseteq> set (seen_ids p1)" using s by simp
    with k2 have b: "set (map row_key (concat (map rows later))) \<inter> set (seen_ids p) = {}"
      by blast
    have "set (map row_key (concat (map rows (new @ later)))) =
            set (map row_key (concat (map rows new))) \<union> set (map row_key (concat (map rows later)))"
      by simp
    with a b show ?thesis by blast
  qed
  ultimately show ?case by blast
qed

lemma news_cycle_falsy:
  assumes inv: "falsy_inv p"
  shows "\<exists>p'. NewsPoller_fetch_and_ingest env p = Inr p' \<and> falsy_inv p'"
proof -
  from news_cycle [of env p] obtain p' batch where
    r: "NewsPoller_fetch_and_ingest env p = Inr p'"
    and d: "delivered p' = delivered p @ batch"
    and s: "seen_ids p' =
       (if trims env (seen_ids p) then trim_seen env (seen_ids p @ map row_key batch)
        else seen_ids p @ map row_key batch)"
    and b: "list_all (\<lambda>e. truthy (article_id e) \<and> py_hash_key (article_id e) = Inr (row_key e)) batch"
    by blast
  from b have bt: "list_all (\<lambda>e. truthy (article_id e)) batch"
    by (simp add: list_all_iff)
  from b have bk: "list_all key_truthy (map row_key batch)"
    using hash_key_truthy by (fastforce simp: list_all_iff)
  with inv have all: "list_all key_truthy (seen_ids p @ map row_key batch)"
    by (simp add: falsy_inv_def)
  have "list_all key_truthy (seen_ids p')"
    using all trim_seen_subset [of env "seen_ids p @ map row_key batch"]
    unfolding s list_all_iff by (auto split: if_splits)
  moreover have "list_all (\<lambda>e. truthy (article_id e)) (delivered p')"
    using inv bt by (simp add: falsy_inv_def d)
  ultimately show ?thesis using r by (auto simp: falsy_inv_def)
qed

lemma news_run_falsy:
  "falsy_inv p \<Longrightarrow> \<exists>p'. NewsPoller_cycles envs p = Inr p' \<and> falsy_inv p'"
proof (induction envs arbitrary: p)
  case Nil
  then show ?case by simp
next
  case (Cons env envs)
  from news_cycle_falsy [OF Cons.prems] obtain p1
    where r: "NewsPoller_fetch_and_ingest env p = Inr p1" and i: "falsy_inv p1" by blast
  from Cons.IH [OF i] r show ?case by simp
qed

lemmas news_eval_defs =
  NewsPoller_fetch_and_ingest_def NewsPoller_init_def news_try_def news_collect_def trims_def
  news_env_def article_def api_get_def ingest_def Let_def delivered_def row_key_def article_id_def

section \<open>Facts about the trim of the identifiers seen\<close>

lemma slot_news_env [simp]: "slot (news_env arts r) (knum n) = n"
  by (simp add: news_env_def knum_def)

lemma now_news_env: "news_collect (news_env arts r) seen = news_scan (now (news_env arts r)) arts seen []"
  by (simp add: news_collect_def news_env_def api_get_def)

lemma append_result_news_env [simp]: "append_result (news_env arts r) = r"
  by (simp add: news_env_def)

lemma news_scan_fresh:
  "distinct ns \<Longrightarrow> 0 \<notin> set ns \<Longrightarrow> \<forall>n\<in>set ns. knum n \<notin> set seen \<Longrightarrow>
     \<exists>acc'. news_scan clock (map int_article ns) seen acc = (None, seen @ map knum ns, acc')"
proof (induction ns arbitrary: seen acc)
  case Nil
  show ?case by simp
next
  case (Cons n ns)
  let ?row = "\<lparr>RECORD_CONTENT = int_article n,
                 RECORD_METADATA = \<lparr>ingested_at = clock (length acc),
                                    source = ''polygon_rest_news'', ticker = None\<rparr>\<rparr>"
  from Cons.prems have n: "n \<noteq> 0" "knum n \<notin> set seen" by auto
  have step: "news_scan clock (map int_article (n # ns)) seen acc =
                news_scan clock (map int_article ns) (seen @ [knum n]) (acc @ [?row])"
    using n by (simp add: int_article_def article_def knum_def)
  have "\<forall>m\<in>set ns. knum m \<notin> set (seen @ [knum n])"
    using Cons.prems by (auto simp: knum_def)
  with Cons.IH [of "seen @ [knum n]" "acc @ [?row]"] Cons.prems
  obtain acc' where "news_scan clock (map int_article ns) (seen @ [knum n]) (acc @ [?row]) =
      (None, (seen @ [knum n]) @ map knum ns, acc')"
    by auto
  with step show ?case by simp
qed

lemma news_cycle_fresh:
  assumes d: "distinct ns" and z: "0 \<notin> set ns" and f: "\<forall>n\<in>set ns. knum n \<notin> set (seen_ids p)"
  shows "\<exists>p'. NewsPoller_fetch_and_ingest (news_env (map int_article ns) r) p = Inr p' \<and>
           trims (news_env (map int_article ns) r) (seen_ids p) = (5000 < length (seen_ids p) + length ns) \<and>
           map row_key (delivered p') = map row_key (delivered p) @ map knum ns \<and>
           seen_ids p' =
             (if 5000 < length (seen_ids p) + length ns
              then trim_seen (news_env (map int_article ns) r) (seen_ids p @ map knum ns)
              else seen_ids p @ map knum ns)"
proof -
  let ?env = "news_env (map int_article ns) r"
  from news_scan_fresh [OF d z f, of "now ?env" "[]"] obtain batch where
    c: "news_collect ?env (seen_ids p) = (None, seen_ids p @ map knum ns, batch)"
    by (auto simp: now_news_env)
  from news_collect_shape [OF c] have k: "map row_key batch = map knum ns" by simp
  have t: "trims ?env (seen_ids p) = (5000 < length (seen_ids p) + length ns)"
    by (simp add: trims_def c)
  from news_result [OF c] obtain p' where
    r: "NewsPoller_fetch_and_ingest ?env p = Inr p'"
    and s: "seen_ids p' = (if trims ?env (seen_ids p) then trim_seen ?env (seen_ids p @ map knum ns)
                           else seen_ids p @ map knum ns)"
    and ch: "channel p' = channel p @
             (if batch = [] then []
              else [\<lparr>rows = batch, start_offset_token = offset p,
                     end_offset_token = offset p + int (length batch),
                     accepted = (append_result ?env = None)\<rparr>])"
    by blast
  from ch have "delivered p' = delivered p @ batch" by (simp add: delivered_def)
  then have "map row_key (delivered p') = map row_key (delivered p) @ map knum ns"
    by (simp add: k)
  with r t s show ?thesis by simp
qed

lemma cycles_append:
  "NewsPoller_cycles xs p = Inr p' \<Longrightarrow> NewsPoller_cycles (xs @ ys) p = NewsPoller_cycles ys p'"
  by (induction xs arbitrary: p) (auto split: sum.splits)

lemma never_trims_append:
  "NewsPoller_cycles xs p = Inr p' \<Longrightarrow> never_trims xs p \<Longrightarrow> never_trims ys p' \<Longrightarrow>
     never_trims (xs @ ys) p"
  by (induction xs arbitrary: p) (auto split: sum.splits)

lemma warm_run:
  "k \<le> 100 \<Longrightarrow>
     \<exists>p. NewsPoller_cycles (map warm_env [0..<k]) NewsPoller_init = Inr p \<and>
         never_trims (map warm_env [0..<k]) NewsPoller_init \<and>
         seen_ids p = map knum [2..<50 * k + 2] \<and>
         map row_key (delivered p) = map knum [2..<50 * k + 2]"
proof (induction k)
  case 0
  show ?case by (simp add: NewsPoller_init_def delivered_def)
next
  case (Suc k)
  then obtain p where r: "NewsPoller_cycles (map warm_env [0..<k]) NewsPoller_init = Inr p"
    and nt: "never_trims (map warm_env [0..<k]) NewsPoller_init"
    and s: "seen_ids p = map knum [2..<50 * k + 2]"
    and dl: "map row_key (delivered p) = map knum [2..<50 * k + 2]"
    by auto
  let ?ns = "[50 * k + 2 ..< 50 * k + 52]"
  have fr: "\<forall>n\<in>set ?ns. knum n \<notin> set (seen_ids p)"
    by (auto simp: s knum_def)
  have "distinct ?ns" "0 \<notin> set ?ns" by simp_all
  from news_cycle_fresh [OF this fr, of None] obtain p' where
    r': "NewsPoller_fetch_and_ingest (warm_env k) p = Inr p'"
    and t': "trims (warm_env k) (seen_ids p) = (5000 < length (seen_ids p) + length ?ns)"
    and d': "map row_key (delivered p') = map row_key (delivered p) @ map knum ?ns"
    and s': "seen_ids p' =
             (if 5000 < length (seen_ids p) + length ?ns
              then trim_seen (warm_env k) (seen_ids p @ map knum ?ns)
              else seen_ids p @ map knum ?ns)"
    by (auto simp: warm_env_def)
  have len: "length (seen_ids p) = 50 * k"
    unfolding s by (simp only: length_map length_upt add_diff_cancel_right')
  have small: "\<not> 5000 < length (seen_ids p) + length ?ns"
    using Suc.prems unfolding len by simp
  have le: "2 \<le> 50 * k + 2" by simp
  have e1: "(50 * k + 2) + 50 = 50 * k + 52" and e2: "50 * Suc k + 2 = 50 * k + 52"
    by simp_all
  have "[2..<50 * k + 52] = [2..<50 * k + 2] @ ?ns"
    using upt_add_eq_append [OF le, of 50] unfolding e1 .
  then have join: "[2..<50 * k + 2] @ ?ns = [2..<50 * Suc k + 2]"
    unfolding e2 by (rule sym)
  have "seen_ids p' = map knum ([2..<50 * k + 2] @ ?ns)"
    using s' small by (simp only: s if_False map_append)
  then have s2: "seen_ids p' = map knum [2..<50 * Suc k + 2]"
    by (simp only: join)
  have "map row_key (delivered p') = map knum ([2..<50 * k + 2] @ ?ns)"
    using d' by (simp only: dl map_append)
  then have d2: "map row_key (delivered p') = map knum [2..<50 * Suc k + 2]"
    by (simp only: join)
  have run: "NewsPoller_cycles (map warm_env [0..<Suc k]) NewsPoller_init = Inr p'"
    using cycles_append [OF r, of "[warm_env k]"] r' by simp
  have "never_trims [warm_env k] p"
    using t' small r' by simp
  from never_trims_append [OF r nt this]
  have nt2: "never_trims (map warm_env [0..<Suc k]) NewsPoller_init" by simp
  from run nt2 s2 d2 show ?case by blast
qed

lemma knum_inj: "knum m = knum n \<longleftrightarrow> m = n"
  by (simp add: knum_def)

lemma knum_upt: "knum n \<in> set (map knum [a..<b]) \<longleftrightarrow> a \<le> n \<and> n < b"
  by (auto simp: knum_inj simp del: upt_rec_numeral)

lemma insort_knum:
  "insort_key (slot (news_env arts r)) (knum n) (map knum ms) = map knum (insort n ms)"
  by (induction ms) simp_all

lemma sort_key_knum:
  "sort_key (slot (news_env arts r)) (map knum ns) = map knum (sort ns)"
  by (induction ns) (simp_all add: insort_knum)

lemma set_to_list_knum:
  assumes d: "distinct ns" and ms: "sorted ms" "distinct ms" "set ms = set ns"
  shows "set_to_list (news_env arts r) (map knum ns) = map knum ms"
proof -
  have "sort ns = ms"
  proof (rule sorted_distinct_set_unique)
    show "sorted (sort ns)" by (rule sorted_sort)
    show "distinct (sort ns)" using d by (simp only: distinct_sort)
    show "sorted ms" by (rule ms(1))
    show "distinct ms" by (rule ms(2))
    show "set (sort ns) = set ms" by (simp only: set_sort ms(3))
  qed
  then show ?thesis by (simp only: set_to_list_def sort_key_knum)
qed

lemma trim_full:
  "trim_seen latest_env (map knum [2..<5002] @ map knum [1]) = map knum [2502..<5002]"
proof -
  have d: "distinct ([2..<5002] @ [1::nat])"
    by (simp del: upt_rec_numeral)
  have s: "set [1..<5002] = set ([2..<5002] @ [1::nat])"
    by (auto simp del: upt_rec_numeral)
  have "set_to_list latest_env (map knum ([2..<5002] @ [1])) = map knum [1..<5002]"
    unfolding latest_env_def
    by (rule set_to_list_knum [OF d sorted_upt distinct_upt s])
  then have l: "set_to_list latest_env (map knum [2..<5002] @ map knum [1]) = map knum [1..<5002]"
    by (simp only: map_append)
  have len: "length (map knum [1..<5002]) - 2500 = 2501"
    by (simp del: upt_rec_numeral)
  have "drop 2501 (map knum [1..<5002]) = map knum [1 + 2501..<5002]"
    by (simp only: drop_map drop_upt)
  then have dr: "drop 2501 (map knum [1..<5002]) = map knum [2502..<5002]"
    by (simp del: upt_rec_numeral)
  show ?thesis
    unfolding trim_seen_def Let_def l len dr ..
qed

section \<open>C1: offset windows\<close>



section \<open>C2: the batch of a cycle with failing tickers\<close>

text \<open>
  C2, as the spec states it: for every sequence of fetch outcomes the batch holds exactly
  the records of the successful tickers. In the cycle below AAPL answers with three
  results, the second of which is not an object, and every other fetch fails: AAPL is
  logged as failed, with a \<open>TypeError\<close>, and the batch holds one row of AAPL, neither
  none nor the three.
\<close>

theorem partial_rows_of_failed_ticker_counterexample:
  "length (results_of (http_get bad_env (agg_url ''AAPL''))) = 3 \<and>
   LogError ''AGG | Error fetching AAPL'' TypeError
     \<in> set (log (projr (AggregatePoller_fetch_and_ingest bad_env AggregatePoller_init))) \<and>
   map (ticker \<circ> RECORD_METADATA) (concat (map rows (channel (projr
     (AggregatePoller_fetch_and_ingest bad_env AggregatePoller_init))))) = [Some ''AAPL'']"
  by (simp add: eval_defs bad_env_def)

text \<open>
  C2, amended: for every sequence of fetch outcomes and whatever the sink does, a cycle
  of a per-ticker poller, aggregate or historical, does not raise, and the batch passed
  to \<open>append_rows\<close> holds, for the tickers fetched and in the order they were fetched,
  the records of each response up to the first element that is not an object; a ticker
  whose fetch raised contributes none, and no call is made for an empty batch. When every
  fetch raises or returns a body of the upstream shape, the batch is exactly the records
  of the tickers whose fetch succeeded.
\<close>

theorem per_ticker_batch_is_kept_records:
  "\<not> isl (AggregatePoller_fetch_and_ingest env p) \<and>
   \<not> isl (HistoricalAggPoller_fetch_and_ingest env h) \<and>
   channel (projr (AggregatePoller_fetch_and_ingest env p)) =
     channel p @ append_calls env (offset p) (kept_batch env ''polygon_rest_aggs'' agg_url TICKERS) \<and>
   channel (projr (HistoricalAggPoller_fetch_and_ingest env h)) =
     channel h @
     (if loaded h then []
      else append_calls env (offset h)
             (kept_batch env ''polygon_rest_daily_bars'' (hist_url env) TICKERS)) \<and>
   (list_all (\<lambda>tk. well_formed (http_get env (agg_url tk))) (fetched env TICKERS) \<longrightarrow>
      kept_batch env ''polygon_rest_aggs'' agg_url TICKERS =
      successful_records env ''polygon_rest_aggs'' agg_url TICKERS) \<and>
   (list_all (\<lambda>tk. well_formed (http_get env (hist_url env tk))) (fetched env TICKERS) \<longrightarrow>
      kept_batch env ''polygon_rest_daily_bars'' (hist_url env) TICKERS =
      successful_records env ''polygon_rest_daily_bars'' (hist_url env) TICKERS)"
proof (intro conjI impI)
  show "\<not> isl (AggregatePoller_fetch_and_ingest env p)"
    by (simp add: agg_result)
  show "\<not> isl (HistoricalAggPoller_fetch_and_ingest env h)"
    by (rule hist_returns)
  show "channel (projr (AggregatePoller_fetch_and_ingest env p)) =
     channel p @ append_calls env (offset p) (kept_batch env ''polygon_rest_aggs'' agg_url TICKERS)"
    by (rule agg_channel_kept)
  show "channel (projr (HistoricalAggPoller_fetch_and_ingest env h)) =
     channel h @
     (if loaded h then []
      else append_calls env (offset h)
             (kept_batch env ''polygon_rest_daily_bars'' (hist_url env) TICKERS))"
    by (rule hist_channel_kept)
next
  assume "list_all (\<lambda>tk. well_formed (http_get env (agg_url tk))) (fetched env TICKERS)"
  then show "kept_batch env ''polygon_rest_aggs'' agg_url TICKERS =
      successful_records env ''polygon_rest_aggs'' agg_url TICKERS"
    by (rule kept_batch_wf)
next
  assume "list_all (\<lambda>tk. well_formed (http_get env (hist_url env tk))) (fetched env TICKERS)"
  then show "kept_batch env ''polygon_rest_daily_bars'' (hist_url env) TICKERS =
      successful_records env ''polygon_rest_daily_bars'' (hist_url env) TICKERS"
    by (rule kept_batch_wf)
qed

theorem per_ticker_batch_is_kept_records_witness:
  "list_all (\<lambda>tk. well_formed (http_get mixed_env (agg_url tk))) (fetched mixed_env TICKERS) \<and>
   map (ticker \<circ> RECORD_METADATA)
     (concat (map rows (channel (projr (AggregatePoller_fetch_and_ingest mixed_env AggregatePoller_init))))) =
     [Some ''AAPL'', Some ''GOOGL'', Some ''GOOGL'', Some ''NVDA'']"
proof -
  have h: "list_all (\<lambda>tk. well_formed (http_get mixed_env (agg_url tk))) (fetched mixed_env TICKERS)"
    by (simp add: mixed_env_def fetched_def url_defs)
  have tr: "tagged_records mixed_env agg_url (fetched mixed_env TICKERS) =
      [(''AAPL'', JObj [(''c'', JNum 190)]), (''GOOGL'', JObj [(''c'', JNum 140)]),
       (''GOOGL'', JObj [(''c'', JNum 141)]), (''NVDA'', JObj [(''c'', JNum 480)])]"
    by (simp add: mixed_env_def fetched_def tagged_records_def url_defs)
  have ne: "successful_records mixed_env ''polygon_rest_aggs'' agg_url TICKERS \<noteq> []"
    using length_stamp [of "now mixed_env" "''polygon_rest_aggs''" 0
        "tagged_records mixed_env agg_url (fetched mixed_env TICKERS)"]
    by (auto simp: successful_records_def tr simp del: length_stamp)
  have tk: "map (ticker \<circ> RECORD_METADATA) (successful_records mixed_env ''polygon_rest_aggs'' agg_url TICKERS) =
      [Some ''AAPL'', Some ''GOOGL'', Some ''GOOGL'', Some ''NVDA'']"
    by (simp add: successful_records_def stamp_tickers tr)
  from per_ticker_batch_is_kept_records [of mixed_env AggregatePoller_init HistoricalAggPoller_init] h
  have "channel (projr (AggregatePoller_fetch_and_ingest mixed_env AggregatePoller_init)) =
          channel AggregatePoller_init @
          append_calls mixed_env (offset AggregatePoller_init)
            (successful_records mixed_env ''polygon_rest_aggs'' agg_url TICKERS)"
    by simp
  with h show ?thesis
    by (simp add: append_calls_def ne tk AggregatePoller_init_def)
qed

section \<open>C3: no identifier is delivered twice\<close>

text \<open>
  C3: in a run of the news poller from its construction in which the trim of
  \<open>seen_ids\<close> never runs, no cycle raises and the identifiers of all the rows passed
  to \<open>append_rows\<close>, over all cycles, are pairwise different (they are exactly the
  content of \<open>seen_ids\<close>). In any single cycle, from any state, the new batch holds no
  identifier twice and none that was in \<open>seen_ids\<close> when the cycle began.
\<close>

theorem news_ids_delivered_once:
  "(never_trims envs NewsPoller_init \<longrightarrow>
      (\<exists>p. NewsPoller_cycles envs NewsPoller_init = Inr p \<and>
           distinct (map row_key (delivered p)) \<and>
           seen_ids p = map row_key (delivered p))) \<and>
   (\<exists>q' batch. NewsPoller_fetch_and_ingest env q = Inr q' \<and>
      delivered q' = delivered q @ batch \<and>
      distinct (map row_key batch) \<and>
      set (map row_key batch) \<inter> set (seen_ids q) = {})"
proof (intro conjI impI)
  assume nt: "never_trims envs NewsPoller_init"
  have "dedup_inv NewsPoller_init"
    by (simp add: dedup_inv_def NewsPoller_init_def delivered_def)
  from news_run_dedup [OF nt this]
  show "\<exists>p. NewsPoller_cycles envs NewsPoller_init = Inr p \<and>
           distinct (map row_key (delivered p)) \<and>
           seen_ids p = map row_key (delivered p)"
    by (auto simp: dedup_inv_def)
next
  from news_cycle [of env q]
  show "\<exists>q' batch. NewsPoller_fetch_and_ingest env q = Inr q' \<and>
      delivered q' = delivered q @ batch \<and>
      distinct (map row_key batch) \<and>
      set (map row_key batch) \<inter> set (seen_ids q) = {}"
    by blast
qed

theorem news_ids_delivered_once_witness:
  "never_trims
     [news_env [article (JStr ''a1''), article (JStr ''a2'')] None,
      news_env [article (JStr ''a1''), article (JStr ''a2''), article (JStr ''a1''), article (JStr ''a3'')] None]
     NewsPoller_init \<and>
   (\<exists>p. NewsPoller_cycles
          [news_env [article (JStr ''a1''), article (JStr ''a2'')] None,
           news_env [article (JStr ''a1''), article (JStr ''a2''), article (JStr ''a1''), article (JStr ''a3'')] None]
          NewsPoller_init = Inr p \<and>
        distinct (map row_key (delivered p)) \<and>
        seen_ids p = map row_key (delivered p) \<and>
        map (map row_key \<circ> rows) (channel p) = [[KStr ''a1'', KStr ''a2''], [KStr ''a3'']])"
proof -
  let ?envs = "[news_env [article (JStr ''a1''), article (JStr ''a2'')] None,
      news_env [article (JStr ''a1''), article (JStr ''a2''), article (JStr ''a1''), article (JStr ''a3'')] None]"
  have nt: "never_trims ?envs NewsPoller_init"
    by (simp add: news_eval_defs)
  have ch: "map (map row_key \<circ> rows) (channel (projr (NewsPoller_cycles ?envs NewsPoller_init))) =
              [[KStr ''a1'', KStr ''a2''], [KStr ''a3'']]"
    by (simp add: news_eval_defs)
  from news_ids_delivered_once [of ?envs "news_env [] None" NewsPoller_init] nt ch show ?thesis by auto
qed

section \<open>C4: the historical poller loads once\<close>

text \<open>
  C4: when a call of \<open>HistoricalAggPoller.fetch_and_ingest\<close> makes an append call that
  returns, the poller is \<open>loaded\<close> afterwards, and a second call, whatever the outside
  world does, returns the poller as it is: no request, no append call, no field changed.
  The two calls together make exactly the one append call of the first.
\<close>

theorem historical_second_call_is_noop:
  assumes first: "HistoricalAggPoller_fetch_and_ingest env1 p = Inr p1"
    and one: "channel p1 = channel p @ [c]"
    and ok: "accepted c"
  shows "loaded p1 \<and>
         HistoricalAggPoller_fetch_and_ingest env2 p1 = Inr p1 \<and>
         HistoricalAggPoller_cycles [env1, env2] p = Inr p1"
proof -
  have nl: "\<not> loaded p"
  proof
    assume "loaded p"
    with first have "p1 = p" by (simp add: HistoricalAggPoller_fetch_and_ingest_def)
    with one show False by simp
  qed
  let ?L = "ticker_loop env1 ''HIST | Error fetching '' ''polygon_rest_daily_bars'' (hist_url env1) TICKERS p []"
  from first nl have p1: "p1 = hist_ingest env1 (snd ?L) (fst ?L)"
    by (simp add: hist_result)
  from one have ch: "channel (ingest ''HIST'' env1 (snd ?L) (fst ?L)) = channel p @ [c]"
    by (simp add: p1 hist_ingest_channel)
  then have ne: "snd ?L \<noteq> []"
    by (auto simp: ingest_channel ticker_loop_channel)
  with ch ok have acc: "append_result env1 = None"
    by (auto simp: ingest_channel ticker_loop_channel)
  from ne acc have l: "loaded p1"
    by (simp add: p1 hist_ingest_def Let_def)
  then have second: "HistoricalAggPoller_fetch_and_ingest env2 p1 = Inr p1"
    by (simp add: HistoricalAggPoller_fetch_and_ingest_def)
  with first l show ?thesis by simp
qed

theorem historical_second_call_is_noop_witness:
  "(\<exists>c. channel (projr (HistoricalAggPoller_fetch_and_ingest scenario_env HistoricalAggPoller_init)) = [c]
        \<and> accepted c) \<and>
   loaded (projr (HistoricalAggPoller_fetch_and_ingest scenario_env HistoricalAggPoller_init)) \<and>
   HistoricalAggPoller_cycles [scenario_env, mixed_env] HistoricalAggPoller_init =
     HistoricalAggPoller_fetch_and_ingest scenario_env HistoricalAggPoller_init \<and>
   length (channel (projr (HistoricalAggPoller_cycles [scenario_env, mixed_env] HistoricalAggPoller_init))) = 1"
proof -
  obtain p1 where first: "HistoricalAggPoller_fetch_and_ingest scenario_env HistoricalAggPoller_init = Inr p1"
    by (simp add: HistoricalAggPoller_init_def hist_result)
  have "\<exists>c. channel p1 = channel HistoricalAggPoller_init @ [c] \<and> accepted c"
    using first [symmetric]
    by (simp add: HistoricalAggPoller_fetch_and_ingest_def HistoricalAggPoller_init_def hist_ingest_def
        scenario_env_def url_defs fetch_ticker_def api_get_def ingest_def Let_def)
  then obtain c where one: "channel p1 = channel HistoricalAggPoller_init @ [c]" and ok: "accepted c"
    by blast
  from historical_second_call_is_noop [OF first one ok, of mixed_env] first one ok
  show ?thesis by (simp add: HistoricalAggPoller_init_def)
qed

section \<open>C5: what the trim keeps\<close>

text \<open>
  C5 states that the trim of \<open>seen_ids\<close> keeps the most recently seen entries, so that
  the latest articles are not delivered again in the following cycle. The trim keeps the
  last 2500 elements of \<open>list(self.seen_ids)\<close>, and a set enumerates by position in
  its hash table, not by age. In the run below, from a freshly constructed poller, one
  hundred cycles bring \<open>seen_ids\<close> to 5000 entries without a trim; the next cycle
  delivers the article 1 and trims; the trim leaves 2500 entries and the identifier 1, the
  latest, is not among them; the cycle after it delivers the article 1 a second time.
\<close>

theorem trim_evicts_latest_article:
  "\<exists>p0 p1 p2.
     NewsPoller_cycles warmup NewsPoller_init = Inr p0 \<and>
     never_trims warmup NewsPoller_init \<and>
     length (seen_ids p0) = 5000 \<and>
     NewsPoller_fetch_and_ingest latest_env p0 = Inr p1 \<and>
     trims latest_env (seen_ids p0) \<and>
     map row_key (delivered p1) = map row_key (delivered p0) @ [KNum 1] \<and>
     length (seen_ids p1) = 2500 \<and>
     KNum 1 \<notin> set (seen_ids p1) \<and>
     NewsPoller_fetch_and_ingest latest_env p1 = Inr p2 \<and>
     map row_key (delivered p2) = map row_key (delivered p1) @ [KNum 1]"
proof -
  have w: "map warm_env [0..<100] = warmup" by (simp only: warmup_def)
  have e: "50 * 100 + 2 = (5002::nat)" by simp
  have "\<exists>p. NewsPoller_cycles warmup NewsPoller_init = Inr p \<and>
         never_trims warmup NewsPoller_init \<and>
         seen_ids p = map knum [2..<5002] \<and>
         map row_key (delivered p) = map knum [2..<5002]"
    using warm_run [OF order_refl] unfolding w e .
  then obtain p0 where
    r0: "NewsPoller_cycles warmup NewsPoller_init = Inr p0"
    and nt: "never_trims warmup NewsPoller_init"
    and s0: "seen_ids p0 = map knum [2..<5002]"
    by (elim exE conjE)
  have len0: "length (seen_ids p0) = 5000"
    unfolding s0 by (simp del: upt_rec_numeral)
  have fr0: "\<forall>n\<in>set [1::nat]. knum n \<notin> set (seen_ids p0)"
    unfolding s0 by (simp add: knum_upt del: upt_rec_numeral set_map)
  have one: "distinct [1::nat]" "0 \<notin> set [1::nat]" by simp_all
  have le: "news_env (map int_article [1]) None = latest_env"
    by (simp add: latest_env_def)
  from news_cycle_fresh [OF one fr0, of None] obtain p1 where
    r1: "NewsPoller_fetch_and_ingest latest_env p0 = Inr p1"
    and t1: "trims latest_env (seen_ids p0) = (5000 < length (seen_ids p0) + length [1::nat])"
    and d1: "map row_key (delivered p1) = map row_key (delivered p0) @ map knum [1]"
    and s1: "seen_ids p1 =
             (if 5000 < length (seen_ids p0) + length [1::nat]
              then trim_seen latest_env (seen_ids p0 @ map knum [1])
              else seen_ids p0 @ map knum [1])"
    unfolding le by (elim exE conjE)
  from t1 have tr: "trims latest_env (seen_ids p0)" unfolding len0 by simp
  from s1 have "seen_ids p1 = trim_seen latest_env (seen_ids p0 @ map knum [1])"
    unfolding len0 by simp
  then have s1': "seen_ids p1 = map knum [2502..<5002]"
    unfolding s0 trim_full .
  have len1: "length (seen_ids p1) = 2500"
    unfolding s1' by (simp del: upt_rec_numeral)
  have fr1: "\<forall>n\<in>set [1::nat]. knum n \<notin> set (seen_ids p1)"
    unfolding s1' by (simp add: knum_upt del: upt_rec_numeral set_map)
  then have gone: "KNum 1 \<notin> set (seen_ids p1)" by (simp add: knum_def)
  from news_cycle_fresh [OF one fr1, of None] obtain p2 where
    r2: "NewsPoller_fetch_and_ingest latest_env p1 = Inr p2"
    and d2: "map row_key (delivered p2) = map row_key (delivered p1) @ map knum [1]"
    unfolding le by (elim exE conjE)
  have k1: "map knum [1] = [KNum 1]" by (simp add: knum_def)
  from r0 nt len0 r1 tr d1 len1 gone r2 d2 show ?thesis
    unfolding k1 by (intro exI conjI)
qed

section \<open>C6: seven tickers, one failing\<close>

text \<open>
  C6, as the spec states it, tags the six envelopes with the source \<open>periodic_agg\<close>.
  In the scenario (TSLA fails, the six other tickers yield one result each) six envelopes
  are delivered and none of them carries that tag.
\<close>

theorem scenario_source_tag_counterexample:
  "length (concat (map rows (channel (projr
      (AggregatePoller_fetch_and_ingest scenario_env AggregatePoller_init))))) = 6 \<and>
   ''periodic_agg'' \<notin> set (map (source \<circ> RECORD_METADATA) (concat (map rows (channel (projr
      (AggregatePoller_fetch_and_ingest scenario_env AggregatePoller_init))))))"
  by (simp add: eval_defs scenario_env_def)

text \<open>
  C6, amended: with the seven configured tickers, no shutdown, one ticker whose fetch
  raises and one result for each of the six others, the first cycle of the aggregate
  poller makes one append call with the window \<open>(0, 6)\<close>; its batch has six envelopes,
  whose metadata carry the six other tickers in order and the source tag
  \<open>polygon_rest_aggs\<close>.
\<close>

theorem scenario_one_failure:
  assumes f: "f \<in> set TICKERS"
    and up: "\<forall>tk\<in>set TICKERS. \<not> is_set env tk"
    and fails: "isl (http_get env (agg_url f))"
    and one: "\<forall>tk\<in>set TICKERS. tk \<noteq> f \<longrightarrow>
                (\<exists>kvs r. http_get env (agg_url tk) = Inr (JObj kvs) \<and>
                         map_of kvs ''results'' = Some (JArr [JObj r]))"
  shows "\<exists>b. channel (projr (AggregatePoller_fetch_and_ingest env AggregatePoller_init)) =
               [\<lparr>rows = b, start_offset_token = 0, end_offset_token = 6,
                 accepted = (append_result env = None)\<rparr>] \<and>
             length b = 6 \<and>
             map (ticker \<circ> RECORD_METADATA) b = map Some (filter (\<lambda>tk. tk \<noteq> f) TICKERS) \<and>
             map (source \<circ> RECORD_METADATA) b = replicate 6 ''polygon_rest_aggs''"
proof -
  let ?b = "successful_records env ''polygon_rest_aggs'' agg_url TICKERS"
  have all: "fetched env TICKERS = TICKERS"
    using up by (simp add: fetched_def takeWhile_eq_all_conv)
  have wf_each: "well_formed (http_get env (agg_url tk))" if "tk \<in> set TICKERS" for tk
  proof (cases "tk = f")
    case True
    with fails show ?thesis by (cases "http_get env (agg_url f)") auto
  next
    case False
    with one that obtain kvs r where "http_get env (agg_url tk) = Inr (JObj kvs)"
      "map_of kvs ''results'' = Some (JArr [JObj r])" by blast
    then show ?thesis by simp
  qed
  then have wf: "list_all (\<lambda>tk. well_formed (http_get env (agg_url tk))) (fetched env TICKERS)"
    by (simp add: all list_all_iff)
  have len_each: "length (results_of (http_get env (agg_url tk))) = (if tk = f then 0 else 1)"
    if "tk \<in> set TICKERS" for tk
  proof (cases "tk = f")
    case True
    with fails show ?thesis by (cases "http_get env (agg_url f)") auto
  next
    case False
    with one that obtain kvs r where "http_get env (agg_url tk) = Inr (JObj kvs)"
      "map_of kvs ''results'' = Some (JArr [JObj r])" by blast
    with False show ?thesis by simp
  qed
  then have fsts: "map fst (tagged_records env agg_url TICKERS) = filter (\<lambda>tk. tk \<noteq> f) TICKERS"
    by (intro tagged_fst) simp
  then have "length (map fst (tagged_records env agg_url TICKERS)) = 6"
    using tickers_without_one [OF f] by simp
  then have len: "length (tagged_records env agg_url TICKERS) = 6" by simp
  have lenb: "length ?b = 6"
    by (simp add: successful_records_def all len)
  have "map (ticker \<circ> RECORD_METADATA) ?b = map (Some \<circ> fst) (tagged_records env agg_url TICKERS)"
    by (simp add: successful_records_def all stamp_tickers)
  also have "\<dots> = map Some (map fst (tagged_records env agg_url TICKERS))"
    by simp
  also have "\<dots> = map Some (filter (\<lambda>tk. tk \<noteq> f) TICKERS)"
    by (simp only: fsts)
  finally have tks:
    "map (ticker \<circ> RECORD_METADATA) ?b = map Some (filter (\<lambda>tk. tk \<noteq> f) TICKERS)" .
  have srcs: "map (source \<circ> RECORD_METADATA) ?b = replicate 6 ''polygon_rest_aggs''"
    by (simp add: successful_records_def all stamp_sources len)
  have batch: "snd (ticker_loop env ''AGG | Error fetching '' ''polygon_rest_aggs'' agg_url TICKERS
                     AggregatePoller_init []) = ?b"
    using ticker_loop_wf [OF wf, of "''AGG | Error fetching ''" "''polygon_rest_aggs''" AggregatePoller_init "[]"]
    by (simp add: successful_records_def)
  have ne: "?b \<noteq> []" using lenb by auto
  have "channel (projr (AggregatePoller_fetch_and_ingest env AggregatePoller_init)) =
          [\<lparr>rows = ?b, start_offset_token = 0, end_offset_token = 6,
            accepted = (append_result env = None)\<rparr>]"
  proof -
    have "offset AggregatePoller_init = 0" "channel AggregatePoller_init = []"
      by (simp_all add: AggregatePoller_init_def)
    then show ?thesis
      by (simp add: agg_channel batch ne lenb Let_def)
  qed
  with lenb tks srcs show ?thesis by blast
qed

theorem scenario_one_failure_witness:
  "''TSLA'' \<in> set TICKERS \<and> isl (http_get scenario_env (agg_url ''TSLA'')) \<and>
   (\<exists>b. channel (projr (AggregatePoller_fetch_and_ingest scenario_env AggregatePoller_init)) =
               [\<lparr>rows = b, start_offset_token = 0, end_offset_token = 6,
                 accepted = (append_result scenario_env = None)\<rparr>] \<and>
             length b = 6 \<and>
             map (ticker \<circ> RECORD_METADATA) b =
               map Some [''AAPL'', ''MSFT'', ''GOOGL'', ''AMZN'', ''NVDA'', ''META''] \<and>
             map (source \<circ> RECORD_METADATA) b = replicate 6 ''polygon_rest_aggs'')"
proof -
  have f: "''TSLA'' \<in> set TICKERS" by (simp add: TICKERS_def)
  have up: "\<forall>tk\<in>set TICKERS. \<not> is_set scenario_env tk" by (simp add: scenario_env_def)
  have fails: "isl (http_get scenario_env (agg_url ''TSLA''))" by (simp add: scenario_env_def)
  have one: "\<forall>tk\<in>set TICKERS. tk \<noteq> ''TSLA'' \<longrightarrow>
                (\<exists>kvs r. http_get scenario_env (agg_url tk) = Inr (JObj kvs) \<and>
                         map_of kvs ''results'' = Some (JArr [JObj r]))"
    by (simp add: scenario_env_def url_defs)
  have flt: "filter (\<lambda>tk. tk \<noteq> ''TSLA'') TICKERS = [''AAPL'', ''MSFT'', ''GOOGL'', ''AMZN'', ''NVDA'', ''META'']"
    by (simp add: TICKERS_def)
  from scenario_one_failure [OF f up fails one] f fails show ?thesis by (simp add: flt)
qed

section \<open>C8: shutdown in the middle of the ticker loop\<close>



section \<open>C9: a failed append suppresses its articles\<close>

text \<open>
  C9: when a cycle of the news poller (without trim) makes an append call that raises,
  the identifiers of the rows of that call are in \<open>seen_ids\<close> after the cycle and
  \<open>total_ingested\<close> is unchanged; in every continuation of the run in which the trim
  never runs, the identifiers stay in \<open>seen_ids\<close> and no later append call carries a row
  with one of them.
\<close>

theorem failed_append_suppresses_articles:
  assumes first: "NewsPoller_fetch_and_ingest env p = Inr p1"
    and call: "channel p1 = channel p @ [c]"
    and failed: "\<not> accepted c"
    and nt1: "\<not> trims env (seen_ids p)"
    and nt: "never_trims envs p1"
  shows "rows c \<noteq> [] \<and>
         set (map row_key (rows c)) \<subseteq> set (seen_ids p1) \<and>
         total_ingested p1 = total_ingested p \<and>
         (\<exists>p2 later. NewsPoller_cycles envs p1 = Inr p2 \<and>
            channel p2 = channel p1 @ later \<and>
            set (map row_key (rows c)) \<subseteq> set (seen_ids p2) \<and>
            set (map row_key (concat (map rows later))) \<inter> set (map row_key (rows c)) = {})"
proof -
  from news_result [of env p] obtain err seen1 batch where
    c0: "news_collect env (seen_ids p) = (err, seen1, batch)"
    by (cases "news_collect env (seen_ids p)") auto
  from news_result [OF c0] first nt1 have
    s: "seen_ids p1 = seen1"
    and ch: "channel p1 = channel p @
             (if batch = [] then []
              else [\<lparr>rows = batch, start_offset_token = offset p,
                     end_offset_token = offset p + int (length batch),
                     accepted = (append_result env = None)\<rparr>])"
    and t: "total_ingested p1 =
             total_ingested p + (if append_result env = None then int (length batch) else 0)"
    by auto
  from ch call have ne: "batch \<noteq> []" by (cases "batch = []") auto
  with ch call have cdef: "c = \<lparr>rows = batch, start_offset_token = offset p,
                     end_offset_token = offset p + int (length batch),
                     accepted = (append_result env = None)\<rparr>" by simp
  then have rc: "rows c = batch" by simp
  from cdef failed have rej: "append_result env \<noteq> None" by simp
  from news_collect_shape [OF c0] have "seen1 = seen_ids p @ map row_key batch" by simp
  with s rc have sub: "set (map row_key (rows c)) \<subseteq> set (seen_ids p1)" by auto
  from t rej have tot: "total_ingested p1 = total_ingested p" by simp
  from news_run_later [OF nt] obtain p2 later where
    r2: "NewsPoller_cycles envs p1 = Inr p2" and c2: "channel p2 = channel p1 @ later"
    and s2: "set (seen_ids p1) \<subseteq> set (seen_ids p2)"
    and k2: "set (map row_key (concat (map rows later))) \<inter> set (seen_ids p1) = {}"
    by blast
  have "set (map row_key (rows c)) \<subseteq> set (seen_ids p2)" using sub s2 by blast
  moreover have "set (map row_key (concat (map rows later))) \<inter> set (map row_key (rows c)) = {}"
    using sub k2 by blast
  ultimately show ?thesis using ne rc sub tot r2 c2 by blast
qed

theorem failed_append_suppresses_articles_witness:
  "(\<exists>c. channel (projr (NewsPoller_fetch_and_ingest
            (news_env [article (JStr ''a1''), article (JStr ''a2'')] (Some IngestError)) NewsPoller_init)) =
          channel NewsPoller_init @ [c] \<and> \<not> accepted c \<and>
          map row_key (rows c) = [KStr ''a1'', KStr ''a2'']) \<and>
   total_ingested (projr (NewsPoller_fetch_and_ingest
       (news_env [article (JStr ''a1''), article (JStr ''a2'')] (Some IngestError)) NewsPoller_init)) = 0 \<and>
   map (map row_key \<circ> rows) (channel (projr (NewsPoller_cycles
       [news_env [article (JStr ''a1''), article (JStr ''a2'')] (Some IngestError),
        news_env [article (JStr ''a1''), article (JStr ''a2''), article (JStr ''a3'')] None]
       NewsPoller_init))) = [[KStr ''a1'', KStr ''a2''], [KStr ''a3'']]"
proof -
  let ?e1 = "news_env [article (JStr ''a1''), article (JStr ''a2'')] (Some IngestError)"
  let ?e2 = "news_env [article (JStr ''a1''), article (JStr ''a2''), article (JStr ''a3'')] None"
  let ?p1 = "projr (NewsPoller_fetch_and_ingest ?e1 NewsPoller_init)"
  have first: "NewsPoller_fetch_and_ingest ?e1 NewsPoller_init = Inr ?p1"
    using news_cycle [of ?e1 NewsPoller_init] by auto
  have "\<exists>c. channel ?p1 = channel NewsPoller_init @ [c] \<and> \<not> accepted c \<and>
          map row_key (rows c) = [KStr ''a1'', KStr ''a2'']"
    by (simp add: news_eval_defs)
  then obtain c where call: "channel ?p1 = channel NewsPoller_init @ [c]" and failed: "\<not> accepted c"
    and keys: "map row_key (rows c) = [KStr ''a1'', KStr ''a2'']" by (elim exE conjE)
  have nt1: "\<not> trims ?e1 (seen_ids NewsPoller_init)"
    by (simp add: news_eval_defs)
  have nt: "never_trims [?e2] ?p1"
    by (simp add: news_eval_defs)
  have run: "map (map row_key \<circ> rows) (channel (projr (NewsPoller_cycles [?e1, ?e2] NewsPoller_init))) =
      [[KStr ''a1'', KStr ''a2''], [KStr ''a3'']]"
    by (simp add: news_eval_defs)
  from failed_append_suppresses_articles [OF first call failed nt1 nt]
  have "total_ingested ?p1 = total_ingested NewsPoller_init" by (elim conjE)
  then have t: "total_ingested ?p1 = 0" by (simp add: NewsPoller_init_def)
  have "\<exists>c. channel ?p1 = channel NewsPoller_init @ [c] \<and> \<not> accepted c \<and>
          map row_key (rows c) = [KStr ''a1'', KStr ''a2'']"
    using call failed keys by (intro exI [of _ c] conjI)
  with t run show ?thesis by (intro conjI)

qed

section \<open>C10: articles without a usable identifier\<close>

text \<open>
  C10: in every run of the news poller from its construction, trims included, no cycle
  raises, every row passed to \<open>append_rows\<close> has a truthy \<open>id\<close> (so an article
  whose \<open>id\<close> is absent, \<open>None\<close>, empty, zero or false is in no batch), and the key
  of a falsy identifier is never in \<open>seen_ids\<close>.
\<close>

theorem falsy_ids_are_skipped:
  "\<exists>p. NewsPoller_cycles envs NewsPoller_init = Inr p \<and>
       (\<forall>e\<in>set (delivered p). truthy (article_id e)) \<and>
       (\<forall>v k. \<not> truthy v \<and> py_hash_key v = Inr k \<longrightarrow> k \<notin> set (seen_ids p))"
proof -
  have "falsy_inv NewsPoller_init"
    by (simp add: falsy_inv_def NewsPoller_init_def delivered_def)
  from news_run_falsy [OF this] obtain p where
    r: "NewsPoller_cycles envs NewsPoller_init = Inr p" and i: "falsy_inv p" by blast
  from i have a: "\<forall>e\<in>set (delivered p). truthy (article_id e)"
    by (simp add: falsy_inv_def list_all_iff)
  have b: "k \<notin> set (seen_ids p)" if "\<not> truthy v" "py_hash_key v = Inr k" for v k
  proof
    assume "k \<in> set (seen_ids p)"
    with i have "key_truthy k" by (simp add: falsy_inv_def list_all_iff)
    with hash_key_truthy [OF that(2)] that(1) show False by simp
  qed
  from r a b show ?thesis by blast
qed

theorem falsy_ids_are_skipped_witness:
  "\<exists>p. NewsPoller_cycles
         [news_env [article (JStr []), JObj [(''title'', JStr ''no id'')], article (JStr ''a1''),
                    article (JNum 0), article JNull, article (JBool False)] None]
         NewsPoller_init = Inr p \<and>
       map row_key (delivered p) = [KStr ''a1''] \<and>
       seen_ids p = [KStr ''a1''] \<and>
       KStr [] \<notin> set (seen_ids p) \<and> KNone \<notin> set (seen_ids p) \<and> KNum 0 \<notin> set (seen_ids p)"
proof -
  let ?envs = "[news_env [article (JStr []), JObj [(''title'', JStr ''no id'')], article (JStr ''a1''),
                    article (JNum 0), article JNull, article (JBool False)] None]"
  from falsy_ids_are_skipped [of ?envs] obtain p where
    r: "NewsPoller_cycles ?envs NewsPoller_init = Inr p"
    and b: "\<forall>v k. \<not> truthy v \<and> py_hash_key v = Inr k \<longrightarrow> k \<notin> set (seen_ids p)"
    by blast
  from b [rule_format, of "JStr []" "KStr []"] have k1: "KStr [] \<notin> set (seen_ids p)" by simp
  from b [rule_format, of JNull KNone] have k2: "KNone \<notin> set (seen_ids p)" by simp
  from b [rule_format, of "JNum 0" "KNum 0"] have k3: "KNum 0 \<notin> set (seen_ids p)" by simp
  have "map row_key (delivered (projr (NewsPoller_cycles ?envs NewsPoller_init))) = [KStr ''a1'']"
    "seen_ids (projr (NewsPoller_cycles ?envs NewsPoller_init)) = [KStr ''a1'']"
    by (simp_all add: news_eval_defs)
  with r k1 k2 k3 show ?thesis by simp
qed

end
